theory Spec2Isabelle
  imports Main
begin

section \<open>The reference-aware Entry of \<^verbatim>\<open>source/db/Entry.cpp\<close>\<close>

text \<open>
  \<^verbatim>\<open>sp::db::Entry\<close> is a \<^verbatim>\<open>std::variant\<close>; the alternatives that own something hold a
  \<^verbatim>\<open>std::shared_ptr\<close>. The model keeps three heaps: one of Entry cells, one of
  EntryObject instances and one of EntryArray instances. An address is an index into
  its heap; a new cell is appended, so its address is the old length of the heap.
  The children of a container are Entry cells of the first heap, and the container
  stores their addresses. Identity of nodes is equality of addresses.
\<close>

type_synonym addr = nat

text \<open>
  Modelled from the spec: the header that declares the variant (\<^verbatim>\<open>Entry.h\<close>) is not part
  of the sources. The five tags \<^verbatim>\<open>Empty\<close>, \<^verbatim>\<open>Reference\<close>, \<^verbatim>\<open>Block\<close>, \<^verbatim>\<open>Object\<close>, \<^verbatim>\<open>Array\<close> are
  the ones \<^verbatim>\<open>Entry.cpp\<close> names. The other alternatives are the scalars of the
  specification, of which the model keeps a boolean, an integer and a string; each of
  them falls into the \<^verbatim>\<open>default:\<close> branch of every switch.
\<close>

datatype scalar = Boolean bool | Integer int | String string

datatype entry =
    Empty
  | Reference addr
  | Block addr
  | Object addr
  | Array addr
  | Scalar scalar

datatype type_tag = TEmpty | TReference | TBlock | TObject | TArray | TScalar

fun index :: "entry \<Rightarrow> type_tag" where
  "index Empty = TEmpty"
| "index (Reference _) = TReference"
| "index (Block _) = TBlock"
| "index (Object _) = TObject"
| "index (Array _) = TArray"
| "index (Scalar _) = TScalar"

text \<open>
  An EntryObject is either the in-memory default (\<^verbatim>\<open>m_self_\<close> and the
  \<^verbatim>\<open>std::map<std::string, Entry>\<close>, kept as an association list with unique keys; the
  key order of the map shows only through cursors, which are not modelled) or an
  instance made by a registered creator, of which only \<^verbatim>\<open>m_self_\<close> and the creator's
  identifier are known.
\<close>

datatype entry_object =
    EntryObjectDefault "addr option" "(string \<times> addr) list"
  | EntryObjectPlugin "addr option" string

record entry_array =
  a_self :: "addr option"
  a_container :: "addr list"

text \<open>
  The exceptions of the code: \<open>TypeMismatch\<close> is \<^verbatim>\<open>std::runtime_error("illegal type")\<close>,
  \<open>OutOfRange\<close> is \<^verbatim>\<open>std::out_of_range\<close> (thrown by \<^verbatim>\<open>std::vector::at\<close> and by
  \<^verbatim>\<open>std::map::at\<close> alike), \<open>BadVariantAccess\<close> is \<^verbatim>\<open>std::bad_variant_access\<close>,
  \<open>UnknownBackend\<close> is the \<^verbatim>\<open>runtime_error\<close> of \<^verbatim>\<open>EntryObject::create\<close> with the schema
  it names, \<open>NotImplemented\<close> is a throwing \<^verbatim>\<open>NOT_IMPLEMENTED\<close>, \<open>SetValueFailed\<close> is the
  \<^verbatim>\<open>std::runtime_error("Set value failed!")\<close> of the older Entry. \<open>Undefined\<close> stands for
  undefined behaviour: a null or dangling pointer is dereferenced, or an unchecked
  standard-library precondition is broken.
\<close>

datatype error =
    TypeMismatch
  | OutOfRange
  | BadVariantAccess
  | UnknownBackend string
  | NotImplemented
  | SetValueFailed
  | Undefined

text \<open>
  Two things the code uses are declared in headers that are not part of the sources,
  and are fields of the state: whether the macro \<^verbatim>\<open>NOT_IMPLEMENTED\<close> throws, and for which
  identifiers \<^verbatim>\<open>Factory<EntryObject>::has_creator\<close> answers true.
\<close>

record state =
  entries :: "entry list"
  objects :: "entry_object list"
  arrays :: "entry_array list"
  not_implemented_throws :: bool
  has_creator :: "string \<Rightarrow> bool"

definition entry_at :: "state \<Rightarrow> addr \<Rightarrow> entry option" where
  "entry_at s a = (if a < length (entries s) then Some (entries s ! a) else None)"

definition object_at :: "state \<Rightarrow> addr \<Rightarrow> entry_object option" where
  "object_at s ob = (if ob < length (objects s) then Some (objects s ! ob) else None)"

definition array_at :: "state \<Rightarrow> addr \<Rightarrow> entry_array option" where
  "array_at s r = (if r < length (arrays s) then Some (arrays s ! r) else None)"

text \<open>\<^verbatim>\<open>emplace<...>(...)\<close> on the Entry at an address.\<close>

definition emplace :: "state \<Rightarrow> addr \<Rightarrow> entry \<Rightarrow> state" where
  "emplace s a e = s\<lparr>entries := (entries s)[a := e]\<rparr>"

subsection \<open>fetch, update, type, clear\<close>

text \<open>
  \<^verbatim>\<open>Entry& Entry::fetch() { return index() == Reference ? *std::get<Reference>(*this) : *this; }\<close>
\<close>

definition fetch :: "state \<Rightarrow> addr \<Rightarrow> error + addr" where
  "fetch s a =
     (case entry_at s a of
        None \<Rightarrow> Inl Undefined
      | Some (Reference b) \<Rightarrow> Inr b
      | Some _ \<Rightarrow> Inr a)"

text \<open>
  \<^verbatim>\<open>void Entry::update()\<close> calls itself on the target of a Reference and does nothing
  else; on a cycle of references it does not return.
\<close>

partial_function (option) update :: "state \<Rightarrow> addr \<Rightarrow> (error + unit) option" where
  "update s a =
     (case entry_at s a of
        None \<Rightarrow> Some (Inl Undefined)
      | Some (Reference b) \<Rightarrow> update s b
      | Some _ \<Rightarrow> Some (Inr ()))"

text \<open>\<^verbatim>\<open>std::size_t Entry::type() const { return fetch().index(); }\<close>\<close>

definition type_of :: "state \<Rightarrow> addr \<Rightarrow> error + type_tag" where
  "type_of s a =
     (case fetch s a of
        Inl e \<Rightarrow> Inl e
      | Inr b \<Rightarrow> (case entry_at s b of None \<Rightarrow> Inl Undefined | Some e \<Rightarrow> Inr (index e)))"

text \<open>\<^verbatim>\<open>void Entry::clear() { base_type::emplace<std::nullptr_t>(nullptr); }\<close>\<close>

definition clear :: "state \<Rightarrow> addr \<Rightarrow> state" where
  "clear s a = emplace s a Empty"

subsection \<open>Creating containers\<close>

text \<open>
  \<^verbatim>\<open>std::string::find\<close> and \<^verbatim>\<open>rfind\<close> for one character (\<open>None\<close> is \<^verbatim>\<open>npos\<close>), and the
  two forms of \<^verbatim>\<open>substr\<close> that \<^verbatim>\<open>EntryObject::create\<close> uses.
\<close>

fun find_char :: "string \<Rightarrow> char \<Rightarrow> nat option" where
  "find_char [] c = None"
| "find_char (x # xs) c = (if x = c then Some 0 else map_option Suc (find_char xs c))"

definition rfind_char :: "string \<Rightarrow> char \<Rightarrow> nat option" where
  "rfind_char str c =
     (case find_char (rev str) c of
        None \<Rightarrow> None
      | Some i \<Rightarrow> Some (length str - 1 - i))"

definition substr_from :: "string \<Rightarrow> nat \<Rightarrow> string" where
  "substr_from str pos = drop pos str"

definition substr :: "string \<Rightarrow> nat \<Rightarrow> nat \<Rightarrow> string" where
  "substr str pos n = take n (drop pos str)"

text \<open>
  The block of \<^verbatim>\<open>EntryObject::create\<close> that computes \<^verbatim>\<open>schema\<close> from a non-empty request:
  \<^verbatim>\<open>
    auto pos = request.find(":");
    if (pos == std::string::npos) {
        pos = request.rfind('.');
        if (pos != std::string::npos) { schema = request.substr(pos); }
        else { schema = request; }
    } else { schema = request.substr(0, pos); }
  \<close>
\<close>

definition schema_of :: "string \<Rightarrow> string" where
  "schema_of request =
     (case find_char request CHR '':'' of
        None \<Rightarrow>
          (case rfind_char request CHR ''.'' of
             Some pos \<Rightarrow> substr_from request pos
           | None \<Rightarrow> request)
      | Some pos \<Rightarrow> substr request 0 pos)"

text \<open>\<^verbatim>\<open>std::make_shared\<close> of a container: a new cell at the end of its heap.\<close>

definition new_object :: "state \<Rightarrow> entry_object \<Rightarrow> state \<times> (error + addr)" where
  "new_object s obj = (s\<lparr>objects := objects s @ [obj]\<rparr>, Inr (length (objects s)))"

definition new_array :: "state \<Rightarrow> entry_array \<Rightarrow> state \<times> (error + addr)" where
  "new_array s arr = (s\<lparr>arrays := arrays s @ [arr]\<rparr>, Inr (length (arrays s)))"

text \<open>
  \<^verbatim>\<open>EntryObject::create(Entry* self, const std::string& request)\<close>. When no creator is
  registered for the schema, \<^verbatim>\<open>obj\<close> stays null and the function throws a
  \<^verbatim>\<open>runtime_error\<close> that names the schema (whether or not \<^verbatim>\<open>RUNTIME_ERROR\<close> has thrown one
  already). A registered creator is taken to return an instance.
\<close>

definition EntryObject_create :: "state \<Rightarrow> addr option \<Rightarrow> string \<Rightarrow> state \<times> (error + addr)" where
  "EntryObject_create s self request =
     (if request = [] then new_object s (EntryObjectDefault self [])
      else
        let schema = schema_of request in
        if (schema = ''http'' \<or> schema = ''https'') \<and> not_implemented_throws s
        then (s, Inl NotImplemented)
        else if schema = [] then new_object s (EntryObjectDefault self [])
        else if has_creator s schema then new_object s (EntryObjectPlugin self schema)
        else (s, Inl (UnknownBackend schema)))"

text \<open>\<^verbatim>\<open>EntryArray::create\<close> always makes the in-memory default.\<close>

definition EntryArray_create :: "state \<Rightarrow> addr option \<Rightarrow> string \<Rightarrow> state \<times> (error + addr)" where
  "EntryArray_create s self request = new_array s \<lparr>a_self = self, a_container = []\<rparr>"

subsection \<open>as_object and as_array\<close>

text \<open>\<^verbatim>\<open>*std::get<type_tags::Object>(fetch())\<close> and \<^verbatim>\<open>*std::get<type_tags::Array>(fetch())\<close>.\<close>

definition get_Object :: "state \<Rightarrow> error + addr \<Rightarrow> error + addr" where
  "get_Object s f =
     (case f of
        Inl e \<Rightarrow> Inl e
      | Inr b \<Rightarrow>
          (case entry_at s b of
             None \<Rightarrow> Inl Undefined
           | Some (Object ob) \<Rightarrow> Inr ob
           | Some _ \<Rightarrow> Inl BadVariantAccess))"

definition get_Array :: "state \<Rightarrow> error + addr \<Rightarrow> error + addr" where
  "get_Array s f =
     (case f of
        Inl e \<Rightarrow> Inl e
      | Inr b \<Rightarrow>
          (case entry_at s b of
             None \<Rightarrow> Inl Undefined
           | Some (Array ar) \<Rightarrow> Inr ar
           | Some _ \<Rightarrow> Inl BadVariantAccess))"

text \<open>
  \<^verbatim>\<open>EntryObject& Entry::as_object()\<close>. An exception leaves the changes made before it in
  place, so the state is returned with the error. The \<^verbatim>\<open>Reference\<close> case calls
  \<^verbatim>\<open>as_object\<close> on the target, which does not return on a cycle of references: the
  result \<open>None\<close>. The \<^verbatim>\<open>Empty\<close> case calls \<^verbatim>\<open>EntryObject::create(this)\<close>; the default of
  the parameter \<^verbatim>\<open>request\<close> is declared in the missing header and is taken to be the
  empty string, which gives the in-memory default as the specification says.
\<close>

partial_function (option) as_object :: "state \<Rightarrow> addr \<Rightarrow> (state \<times> (error + addr)) option" where
  "as_object s a =
     (case entry_at s a of
        None \<Rightarrow> Some (s, Inl Undefined)
      | Some Empty \<Rightarrow>
          (case EntryObject_create s (Some a) [] of
             (s1, Inl e) \<Rightarrow> Some (s1, Inl e)
           | (s1, Inr ob) \<Rightarrow>
               (let s2 = emplace s1 a (Object ob) in Some (s2, get_Object s2 (fetch s2 a))))
      | Some (Object _) \<Rightarrow> Some (s, get_Object s (fetch s a))
      | Some (Reference b) \<Rightarrow>
          Option.bind (as_object s b) (\<lambda>(s1, r).
            case r of
              Inl e \<Rightarrow> Some (s1, Inl e)
            | Inr _ \<Rightarrow> Some (s1, get_Object s1 (fetch s1 a)))
      | Some _ \<Rightarrow> Some (s, Inl TypeMismatch))"

text \<open>\<^verbatim>\<open>EntryArray& Entry::as_array()\<close>; its \<^verbatim>\<open>Reference\<close> case also calls \<^verbatim>\<open>update()\<close>.\<close>

partial_function (option) as_array :: "state \<Rightarrow> addr \<Rightarrow> (state \<times> (error + addr)) option" where
  "as_array s a =
     (case entry_at s a of
        None \<Rightarrow> Some (s, Inl Undefined)
      | Some Empty \<Rightarrow>
          (case EntryArray_create s (Some a) [] of
             (s1, Inl e) \<Rightarrow> Some (s1, Inl e)
           | (s1, Inr ar) \<Rightarrow>
               (let s2 = emplace s1 a (Array ar) in Some (s2, get_Array s2 (fetch s2 a))))
      | Some (Array _) \<Rightarrow> Some (s, get_Array s (fetch s a))
      | Some (Reference b) \<Rightarrow>
          Option.bind (as_array s b) (\<lambda>(s1, r).
            case r of
              Inl e \<Rightarrow> Some (s1, Inl e)
            | Inr _ \<Rightarrow>
                Option.bind (update s1 a) (\<lambda>u.
                  case u of
                    Inl e \<Rightarrow> Some (s1, Inl e)
                  | Inr _ \<Rightarrow> Some (s1, get_Array s1 (fetch s1 a))))
      | Some _ \<Rightarrow> Some (s, Inl TypeMismatch))"

text \<open>
  The const overloads. \<^verbatim>\<open>as_object() const\<close> tests \<^verbatim>\<open>type()\<close>, which looks through a
  Reference; \<^verbatim>\<open>as_array() const\<close> tests \<^verbatim>\<open>index()\<close>, which does not.
\<close>

definition as_object_const :: "state \<Rightarrow> addr \<Rightarrow> error + addr" where
  "as_object_const s a =
     (case type_of s a of
        Inl e \<Rightarrow> Inl e
      | Inr t \<Rightarrow> if t \<noteq> TObject then Inl TypeMismatch else get_Object s (fetch s a))"

definition as_array_const :: "state \<Rightarrow> addr \<Rightarrow> error + addr" where
  "as_array_const s a =
     (case entry_at s a of
        None \<Rightarrow> Inl Undefined
      | Some e \<Rightarrow> if index e \<noteq> TArray then Inl TypeMismatch else get_Array s (fetch s a))"

subsection \<open>The in-memory containers\<close>

text \<open>
  \<^verbatim>\<open>Entry& EntryObjectDefault::insert(const std::string& name)
    { return m_container_.try_emplace(name).first->second; }\<close>
  A new child is a default-constructed Entry, which is Empty. The overrides of other
  backends are not part of the sources; a call on such an instance is reported as
  \<open>NotImplemented\<close>.
\<close>

definition EntryObjectDefault_insert :: "state \<Rightarrow> addr \<Rightarrow> string \<Rightarrow> state \<times> (error + addr)" where
  "EntryObjectDefault_insert s ob name =
     (case object_at s ob of
        None \<Rightarrow> (s, Inl Undefined)
      | Some (EntryObjectPlugin _ _) \<Rightarrow> (s, Inl NotImplemented)
      | Some (EntryObjectDefault self m) \<Rightarrow>
          (case map_of m name of
             Some c \<Rightarrow> (s, Inr c)
           | None \<Rightarrow>
               (let c = length (entries s) in
                (s\<lparr>entries := entries s @ [Empty],
                   objects := (objects s)[ob := EntryObjectDefault self (m @ [(name, c)])]\<rparr>,
                 Inr c))))"

text \<open>
  \<^verbatim>\<open>const Entry& EntryObjectDefault::at(const std::string& path) const
    { return m_container_.at(path); }\<close>
\<close>

definition EntryObjectDefault_at :: "state \<Rightarrow> addr \<Rightarrow> string \<Rightarrow> error + addr" where
  "EntryObjectDefault_at s ob name =
     (case object_at s ob of
        None \<Rightarrow> Inl Undefined
      | Some (EntryObjectPlugin _ _) \<Rightarrow> Inl NotImplemented
      | Some (EntryObjectDefault self m) \<Rightarrow>
          (case map_of m name of
             Some c \<Rightarrow> Inr c
           | None \<Rightarrow> Inl OutOfRange))"

text \<open>
  The index of \<^verbatim>\<open>at(int idx)\<close> is an \<^verbatim>\<open>int\<close>, converted to the 64-bit \<^verbatim>\<open>size_type\<close> of
  \<^verbatim>\<open>std::vector::at\<close>, which throws \<^verbatim>\<open>std::out_of_range\<close> unless the position is below the
  size.
\<close>

definition size_t_of_int :: "int \<Rightarrow> nat" where
  "size_t_of_int i = nat (i mod 2 ^ 64)"

definition vector_at :: "'a list \<Rightarrow> nat \<Rightarrow> error + 'a" where
  "vector_at xs n = (if n < length xs then Inr (xs ! n) else Inl OutOfRange)"

text \<open>\<^verbatim>\<open>Entry& EntryArrayDefault::at(int idx) { return m_container_.at(idx); }\<close> (and its const form)\<close>

definition EntryArrayDefault_at :: "state \<Rightarrow> addr \<Rightarrow> int \<Rightarrow> error + addr" where
  "EntryArrayDefault_at s ar idx =
     (case array_at s ar of
        None \<Rightarrow> Inl Undefined
      | Some arr \<Rightarrow> vector_at (a_container arr) (size_t_of_int idx))"

definition EntryArrayDefault_size :: "state \<Rightarrow> addr \<Rightarrow> error + nat" where
  "EntryArrayDefault_size s ar =
     (case array_at s ar of
        None \<Rightarrow> Inl Undefined
      | Some arr \<Rightarrow> Inr (length (a_container arr)))"

text \<open>\<^verbatim>\<open>Entry& EntryArrayDefault::push_back() { return m_container_.emplace_back(); }\<close>\<close>

definition EntryArrayDefault_push_back :: "state \<Rightarrow> addr \<Rightarrow> state \<times> (error + addr)" where
  "EntryArrayDefault_push_back s ar =
     (case array_at s ar of
        None \<Rightarrow> (s, Inl Undefined)
      | Some arr \<Rightarrow>
          (let c = length (entries s) in
           (s\<lparr>entries := entries s @ [Empty],
              arrays := (arrays s)[ar := arr\<lparr>a_container := a_container arr @ [c]\<rparr>]\<rparr>,
            Inr c)))"

text \<open>
  \<^verbatim>\<open>void EntryArrayDefault::pop_back() { m_container_.pop_back(); }\<close>
  \<^verbatim>\<open>std::vector::pop_back\<close> on an empty vector is undefined behaviour; the code does not
  test for it.
\<close>

definition EntryArrayDefault_pop_back :: "state \<Rightarrow> addr \<Rightarrow> state \<times> (error + unit)" where
  "EntryArrayDefault_pop_back s ar =
     (case array_at s ar of
        None \<Rightarrow> (s, Inl Undefined)
      | Some arr \<Rightarrow>
          (if a_container arr = [] then (s, Inl Undefined)
           else (s\<lparr>arrays := (arrays s)[ar := arr\<lparr>a_container := butlast (a_container arr)\<rparr>]\<rparr>,
                 Inr ())))"

text \<open>\<^verbatim>\<open>void EntryArrayDefault::resize(std::size_t num) { m_container_.resize(num); }\<close>\<close>

definition EntryArrayDefault_resize :: "state \<Rightarrow> addr \<Rightarrow> nat \<Rightarrow> state \<times> (error + unit)" where
  "EntryArrayDefault_resize s ar num =
     (case array_at s ar of
        None \<Rightarrow> (s, Inl Undefined)
      | Some arr \<Rightarrow>
          (let n = length (a_container arr); k = num - n; c = length (entries s) in
           (s\<lparr>entries := entries s @ replicate k Empty,
              arrays := (arrays s)[ar := arr\<lparr>a_container := take num (a_container arr) @ [c ..< c + k]\<rparr>]\<rparr>,
            Inr ())))"

subsection \<open>Walking a path\<close>

text \<open>
  Modelled from the spec: the header of \<^verbatim>\<open>XPath\<close> is not part of the sources. A path is
  an ordered sequence of segments, each a \<^verbatim>\<open>Key\<close> (a string) or an \<^verbatim>\<open>Index\<close> (an integer,
  passed to \<^verbatim>\<open>at(int)\<close>); these are the two tags the walkers name, so their \<^verbatim>\<open>default:\<close>
  branch is never taken.
\<close>

datatype segment = Key string | Index int

type_synonym xpath = "segment list"

text \<open>
  One turn of the loop of \<^verbatim>\<open>EntryObject::insert(const XPath&)\<close>:
  \<^verbatim>\<open>
    case Key:   p = &p->as_object().insert(std::get<Key>(*it));   break;
    case Index: p = &p->as_array().at(std::get<Index>(*it));      break;
  \<close>
\<close>

definition insert_step :: "state \<Rightarrow> addr \<Rightarrow> segment \<Rightarrow> (state \<times> (error + addr)) option" where
  "insert_step s p seg =
     (case seg of
        Key k \<Rightarrow>
          Option.bind (as_object s p) (\<lambda>(s1, r).
            case r of
              Inl e \<Rightarrow> Some (s1, Inl e)
            | Inr ob \<Rightarrow> Some (EntryObjectDefault_insert s1 ob k))
      | Index i \<Rightarrow>
          Option.bind (as_array s p) (\<lambda>(s1, r).
            case r of
              Inl e \<Rightarrow> Some (s1, Inl e)
            | Inr ar \<Rightarrow> Some (s1, EntryArrayDefault_at s1 ar i)))"

fun insert_walk :: "state \<Rightarrow> addr \<Rightarrow> xpath \<Rightarrow> (state \<times> (error + addr)) option" where
  "insert_walk s p [] = Some (s, Inr p)"
| "insert_walk s p (seg # path) =
     (case insert_step s p seg of
        None \<Rightarrow> None
      | Some (s1, Inl e) \<Rightarrow> Some (s1, Inl e)
      | Some (s1, Inr c) \<Rightarrow> insert_walk s1 c path)"

text \<open>\<^verbatim>\<open>m_self_\<close> of an EntryObject.\<close>

fun self_of :: "entry_object \<Rightarrow> addr option" where
  "self_of (EntryObjectDefault self _) = self"
| "self_of (EntryObjectPlugin self _) = self"

text \<open>\<^verbatim>\<open>Entry& EntryObject::insert(const XPath& path)\<close>: the walk starts at \<^verbatim>\<open>m_self_\<close>.\<close>

definition EntryObject_insert :: "state \<Rightarrow> addr \<Rightarrow> xpath \<Rightarrow> (state \<times> (error + addr)) option" where
  "EntryObject_insert s ob path =
     (case object_at s ob of
        None \<Rightarrow> Some (s, Inl Undefined)
      | Some obj \<Rightarrow>
          (case self_of obj of
             None \<Rightarrow> Some (s, Inl Undefined)
           | Some p \<Rightarrow> insert_walk s p path))"

text \<open>
  One turn of the loop of \<^verbatim>\<open>EntryObject::at(const XPath&) const\<close>, on a \<^verbatim>\<open>const Entry*\<close>:
  \<^verbatim>\<open>
    case Key:   p = &p->as_object().at(std::get<Key>(*it));     break;
    case Index: p = &p->as_array().at(std::get<Index>(*it));    break;
  \<close>
\<close>

definition at_step :: "state \<Rightarrow> addr \<Rightarrow> segment \<Rightarrow> error + addr" where
  "at_step s p seg =
     (case seg of
        Key k \<Rightarrow>
          (case as_object_const s p of
             Inl e \<Rightarrow> Inl e
           | Inr ob \<Rightarrow> EntryObjectDefault_at s ob k)
      | Index i \<Rightarrow>
          (case as_array_const s p of
             Inl e \<Rightarrow> Inl e
           | Inr ar \<Rightarrow> EntryArrayDefault_at s ar i))"

fun at_walk :: "state \<Rightarrow> addr \<Rightarrow> xpath \<Rightarrow> error + addr" where
  "at_walk s p [] = Inr p"
| "at_walk s p (seg # path) =
     (case at_step s p seg of
        Inl e \<Rightarrow> Inl e
      | Inr c \<Rightarrow> at_walk s c path)"

definition EntryObject_at :: "state \<Rightarrow> addr \<Rightarrow> xpath \<Rightarrow> error + addr" where
  "EntryObject_at s ob path =
     (case object_at s ob of
        None \<Rightarrow> Inl Undefined
      | Some obj \<Rightarrow>
          (case self_of obj of
             None \<Rightarrow> Inl Undefined
           | Some p \<Rightarrow> at_walk s p path))"

section \<open>The in-memory Entry of \<^verbatim>\<open>source/Entry.cpp\<close>\<close>

text \<open>
  The older \<^verbatim>\<open>sp::Entry\<close> owns an \<^verbatim>\<open>EntryInterfaceInMemory\<close> whose \<^verbatim>\<open>m_data_\<close> is
  \<^verbatim>\<open>std::variant<nullptr_t, single_t, tensor_t, block_t, std::vector<Entry>,
  std::map<std::string, Entry>>\<close>. Children are held by value and nothing is shared, so
  an Entry is the tree of its data. The three leaf payload types are declared in a
  header that is not part of the sources and are type parameters. The pointers
  \<^verbatim>\<open>m_self_\<close> and \<^verbatim>\<open>m_parent_\<close> are not modelled.
\<close>

datatype ('s, 't, 'b) mem =
    NullM
  | SingleM 's
  | TensorM 't
  | BlockM 'b
  | ArrayM "('s, 't, 'b) mem list"
  | ObjectM "(string \<times> ('s, 't, 'b) mem) list"

text \<open>
  \<^verbatim>\<open>Entry::Type type() const { return Entry::Type(m_data_.index()); }\<close> The enumerators are
  used as indices of \<^verbatim>\<open>std::get\<close> and \<^verbatim>\<open>emplace\<close> on \<^verbatim>\<open>m_data_\<close>, which fixes their values.
\<close>

fun type_index :: "('s, 't, 'b) mem \<Rightarrow> nat" where
  "type_index NullM = 0"
| "type_index (SingleM _) = 1"
| "type_index (TensorM _) = 2"
| "type_index (BlockM _) = 3"
| "type_index (ArrayM _) = 4"
| "type_index (ObjectM _) = 5"

definition Type_Null :: nat where [simp]: "Type_Null = 0"
definition Type_Single :: nat where [simp]: "Type_Single = 1"
definition Type_Tensor :: nat where [simp]: "Type_Tensor = 2"
definition Type_Block :: nat where [simp]: "Type_Block = 3"
definition Type_Array :: nat where [simp]: "Type_Array = 4"
definition Type_Object :: nat where [simp]: "Type_Object = 5"

text \<open>
  An \<^verbatim>\<open>Entry::iterator\<close> made by these functions is null or points at a child of the
  node; the child is named by its key or by its position. \<^verbatim>\<open>!p\<close> holds for the null
  iterator: \<^verbatim>\<open>Entry::at\<close> and \<^verbatim>\<open>get_attribute_raw\<close> throw "not found" under \<^verbatim>\<open>if (!p)\<close>.
\<close>

datatype iterator = It_null | It_key string | It_index nat

definition is_null :: "iterator \<Rightarrow> bool" where
  "is_null p = (p = It_null)"

fun deref :: "('s, 't, 'b) mem \<Rightarrow> iterator \<Rightarrow> ('s, 't, 'b) mem option" where
  "deref (ObjectM kv) (It_key k) = map_of kv k"
| "deref (ArrayM xs) (It_index n) = (if n < length xs then Some (xs ! n) else None)"
| "deref _ _ = None"

subsection \<open>Leaf setters\<close>

text \<open>
  \<^verbatim>\<open>
    void set_single(const Entry::single_t& v) override {
        if (type() < Entry::Type::Array) { m_data_.emplace<Entry::Type::Single>(v); }
        else { throw std::runtime_error("Set value failed!"); }
    }
  \<close>
  and likewise \<^verbatim>\<open>set_tensor\<close> and \<^verbatim>\<open>set_block\<close>.
\<close>

definition InMemory_set_single :: "('s, 't, 'b) mem \<Rightarrow> 's \<Rightarrow> ('s, 't, 'b) mem \<times> (error + unit)" where
  "InMemory_set_single m v =
     (if type_index m < Type_Array then (SingleM v, Inr ()) else (m, Inl SetValueFailed))"

definition InMemory_set_tensor :: "('s, 't, 'b) mem \<Rightarrow> 't \<Rightarrow> ('s, 't, 'b) mem \<times> (error + unit)" where
  "InMemory_set_tensor m v =
     (if type_index m < Type_Array then (TensorM v, Inr ()) else (m, Inl SetValueFailed))"

definition InMemory_set_block :: "('s, 't, 'b) mem \<Rightarrow> 'b \<Rightarrow> ('s, 't, 'b) mem \<times> (error + unit)" where
  "InMemory_set_block m v =
     (if type_index m < Type_Array then (BlockM v, Inr ()) else (m, Inl SetValueFailed))"

subsection \<open>As object\<close>

text \<open>
  \<^verbatim>\<open>EntryInterfaceInMemory::find(const std::string& key)\<close>: the child's iterator when
  \<^verbatim>\<open>m_data_\<close> is a map that has the key; the null iterator otherwise (a
  \<^verbatim>\<open>bad_variant_access\<close> is caught).
\<close>

definition InMemory_find :: "('s, 't, 'b) mem \<Rightarrow> string \<Rightarrow> iterator" where
  "InMemory_find m key =
     (case m of
        ObjectM kv \<Rightarrow> (case map_of kv key of Some _ \<Rightarrow> It_key key | None \<Rightarrow> It_null)
      | _ \<Rightarrow> It_null)"

text \<open>
  \<^verbatim>\<open>EntryInterfaceInMemory::insert(const std::string& key)\<close>: a Null node becomes an empty
  map first; \<^verbatim>\<open>m.emplace(key, Entry(m_self_))\<close> adds a Null child unless the key is there.
\<close>

definition InMemory_insert :: "('s, 't, 'b) mem \<Rightarrow> string \<Rightarrow> ('s, 't, 'b) mem \<times> iterator" where
  "InMemory_insert m key =
     (let m1 = (if type_index m = Type_Null then ObjectM [] else m) in
      case m1 of
        ObjectM kv \<Rightarrow>
          (case map_of kv key of
             Some _ \<Rightarrow> (m1, It_key key)
           | None \<Rightarrow> (ObjectM (kv @ [(key, NullM)]), It_key key))
      | _ \<Rightarrow> (m1, It_null))"

text \<open>\<^verbatim>\<open>bool has_attribute(const std::string& name) const { return !find("@" + name); }\<close>\<close>

definition InMemory_has_attribute :: "('s, 't, 'b) mem \<Rightarrow> string \<Rightarrow> bool" where
  "InMemory_has_attribute m name = is_null (InMemory_find m (''@'' @ name))"

text \<open>
  \<^verbatim>\<open>Entry::iterator Entry::find(const std::string& key) { return m_pimpl_->find(key); }\<close>
  \<^verbatim>\<open>bool Entry::has_a(const std::string& key) { return !find(key); }\<close>
\<close>

definition Entry_find :: "('s, 't, 'b) mem \<Rightarrow> string \<Rightarrow> iterator" where
  "Entry_find m key = InMemory_find m key"

definition Entry_has_a :: "('s, 't, 'b) mem \<Rightarrow> string \<Rightarrow> bool" where
  "Entry_has_a m key = is_null (Entry_find m key)"

definition Entry_has_attribute :: "('s, 't, 'b) mem \<Rightarrow> string \<Rightarrow> bool" where
  "Entry_has_attribute m name = InMemory_has_attribute m name"

text \<open>
  \<^verbatim>\<open>
    Entry::iterator Entry::at(const std::string& key) {
        auto p = find(key);
        if (!p) { throw std::out_of_range(key); }
        return p;
    }
  \<close>
\<close>

definition Entry_at_key :: "('s, 't, 'b) mem \<Rightarrow> string \<Rightarrow> error + iterator" where
  "Entry_at_key m key =
     (let p = Entry_find m key in if is_null p then Inl OutOfRange else Inr p)"

subsection \<open>As vector\<close>

text \<open>
  \<^verbatim>\<open>EntryInterfaceInMemory::at(int idx)\<close> returns \<^verbatim>\<open>Entry::iterator(&m[idx])\<close> when
  \<^verbatim>\<open>m_data_\<close> is a vector, with the unchecked \<^verbatim>\<open>operator[]\<close>, and the null iterator
  otherwise.
\<close>

definition InMemory_at :: "('s, 't, 'b) mem \<Rightarrow> int \<Rightarrow> error + iterator" where
  "InMemory_at m idx =
     (case m of
        ArrayM xs \<Rightarrow>
          (if size_t_of_int idx < length xs then Inr (It_index (size_t_of_int idx))
           else Inl Undefined)
      | _ \<Rightarrow> Inr It_null)"

text \<open>
  \<^verbatim>\<open>EntryInterfaceInMemory::push_back()\<close>: a Null node becomes an empty vector first;
  \<^verbatim>\<open>m.emplace_back(Entry(m_self_))\<close> appends a Null child.
\<close>

definition InMemory_push_back :: "('s, 't, 'b) mem \<Rightarrow> ('s, 't, 'b) mem \<times> iterator" where
  "InMemory_push_back m =
     (let m1 = (if type_index m = Type_Null then ArrayM [] else m) in
      case m1 of
        ArrayM xs \<Rightarrow> (ArrayM (xs @ [NullM]), It_index (length xs))
      | _ \<Rightarrow> (m1, It_null))"

text \<open>
  \<^verbatim>\<open>
    Entry& Entry::operator[](int idx) {
        if (idx < 0) { return *push_back(); }
        else {
            auto p = at(idx);
            if (!p) { throw std::out_of_range("index out of range"); }
            return *p;
        }
    }
  \<close>
  The result is the child that the returned reference denotes.
\<close>

definition Entry_subscript :: "('s, 't, 'b) mem \<Rightarrow> int \<Rightarrow> ('s, 't, 'b) mem \<times> (error + iterator)" where
  "Entry_subscript m idx =
     (if idx < 0 then
        (case InMemory_push_back m of
           (m1, p) \<Rightarrow> (m1, if is_null p then Inl Undefined else Inr p))
      else
        (case InMemory_at m idx of
           Inl e \<Rightarrow> (m, Inl e)
         | Inr p \<Rightarrow> (m, if is_null p then Inl OutOfRange else Inr p)))"

section \<open>Concrete states, and what a walk keeps\<close>

text \<open>Two entries that refer to each other: A at address 0, B at address 1.\<close>

definition cyclic_state :: state where
  "cyclic_state =
     \<lparr>entries = [Reference 1, Reference 0], objects = [], arrays = [],
      not_implemented_throws = True, has_creator = (\<lambda>_. False)\<rparr>"

text \<open>An array with no element (at address 0), held by the Entry at address 0.\<close>

definition empty_array_state :: state where
  "empty_array_state =
     \<lparr>entries = [Array 0], objects = [],
      arrays = [\<lparr>a_self = Some 0, a_container = []\<rparr>],
      not_implemented_throws = True, has_creator = (\<lambda>_. False)\<rparr>"

text \<open>An array whose only element is the Entry at address 1, a scalar.\<close>

definition one_element_state :: state where
  "one_element_state =
     \<lparr>entries = [Array 0, Scalar (Integer 5)], objects = [],
      arrays = [\<lparr>a_self = Some 0, a_container = [1]\<rparr>],
      not_implemented_throws = True, has_creator = (\<lambda>_. False)\<rparr>"

text \<open>A state with no entries where the only registered creator is the one for \<open>h5\<close>.\<close>

definition h5_state :: state where
  "h5_state =
     \<lparr>entries = [], objects = [], arrays = [],
      not_implemented_throws = True, has_creator = (\<lambda>k. k = ''h5'')\<rparr>"

text \<open>
  The scheme of a request as the specification words it: the text before the first
  \<open>:\<close>, and without a \<open>:\<close> the file extension, the substring after the last \<open>.\<close>.
\<close>

definition spec_scheme :: "string \<Rightarrow> string" where
  "spec_scheme request =
     (if CHR '':'' \<in> set request then takeWhile (\<lambda>c. c \<noteq> CHR '':'') request
      else rev (takeWhile (\<lambda>c. c \<noteq> CHR ''.'') (rev request)))"

text \<open>
  A root object (Entry 0) with the children \<open>a\<close> (Entry 1, a Reference to Entry 2) and
  \<open>n\<close> (Entry 4, a scalar); Entry 2 is an array whose only element is the Empty Entry 3;
  Entry 5 is a Reference to the root.
\<close>

definition sample_state :: state where
  "sample_state =
     \<lparr>entries = [Object 0, Reference 2, Array 0, Empty, Scalar (Integer 5), Reference 0],
      objects = [EntryObjectDefault (Some 0) [(''a'', 1), (''n'', 4)]],
      arrays = [\<lparr>a_self = Some 2, a_container = [3]\<rparr>],
      not_implemented_throws = True, has_creator = (\<lambda>_. False)\<rparr>"

text \<open>
  What a walk may do to the heap of arrays: every array of the state before is in the
  state after, at its address and with the same elements, and an array that is new in
  the state after has no element.
\<close>

definition arrays_kept :: "state \<Rightarrow> state \<Rightarrow> bool" where
  "arrays_kept s s' =
     (take (length (arrays s)) (arrays s') = arrays s \<and>
      length (arrays s) \<le> length (arrays s') \<and>
      list_all (\<lambda>arr. a_container arr = []) (drop (length (arrays s)) (arrays s')))"

text \<open>
  What a walk may do to the heap of entries: no Entry disappears, and an Entry that is
  not Empty keeps its value (an Empty one may be promoted).
\<close>

definition entries_kept :: "state \<Rightarrow> state \<Rightarrow> bool" where
  "entries_kept s s' =
     (length (entries s) \<le> length (entries s') \<and>
      (\<forall>a < length (entries s). entries s ! a \<noteq> Empty \<longrightarrow> entries s' ! a = entries s ! a))"

text \<open>
  What a walk may do to the heap of objects: no object disappears, and an in-memory
  object keeps \<^verbatim>\<open>m_self_\<close> and every key with its child (it may get more keys).
\<close>

fun object_kept :: "entry_object \<Rightarrow> entry_object \<Rightarrow> bool" where
  "object_kept (EntryObjectDefault self m) (EntryObjectDefault self' m') =
     (self' = self \<and> list_all (\<lambda>k. map_of m' k = map_of m k) (map fst m))"
| "object_kept obj obj' = (obj' = obj)"

definition objects_kept :: "state \<Rightarrow> state \<Rightarrow> bool" where
  "objects_kept s s' =
     (length (objects s) \<le> length (objects s') \<and>
      (\<forall>ob < length (objects s). object_kept (objects s ! ob) (objects s' ! ob)))"

text \<open>
  A chain of two References that ends at an Object: Entry 0 refers to Entry 1, which
  refers to Entry 2, which holds the in-memory object 0.
\<close>

definition chain_state :: state where
  "chain_state =
     \<lparr>entries = [Reference 1, Reference 2, Object 0],
      objects = [EntryObjectDefault (Some 2) []], arrays = [],
      not_implemented_throws = True, has_creator = (\<lambda>_. False)\<rparr>"

section \<open>Properties\<close>

subsection \<open>Reference resolution\<close>

text \<open>
  C1 (as stated, refuted). On the cycle A \<rightarrow> B \<rightarrow> A, \<open>fetch\<close> does not fail: from A it returns
  B and from B it returns A. No hop is counted and no error is raised.
\<close>

theorem fetch_cycle_counterexample:
  "entry_at cyclic_state 0 = Some (Reference 1) \<and>
   entry_at cyclic_state 1 = Some (Reference 0) \<and>
   fetch cyclic_state 0 = Inr 1 \<and>
   fetch cyclic_state 1 = Inr 0"
  by (simp add: cyclic_state_def entry_at_def fetch_def)

text \<open>
  C1 (amended). \<open>fetch\<close> on an Entry always returns, without failure and after at most one
  hop: the target of a Reference (which may be a Reference again), the Entry itself
  otherwise. This holds on a cycle of references as well.
\<close>

theorem fetch_one_hop:
  "entry_at s a = Some e \<Longrightarrow>
   fetch s a = Inr (case e of Reference b \<Rightarrow> b | _ \<Rightarrow> a)"
  by (cases e) (simp_all add: fetch_def)

theorem fetch_one_hop_witness:
  "entry_at cyclic_state 0 = Some (Reference 1) \<and> fetch cyclic_state 0 = Inr 1"
proof -
  have h: "entry_at cyclic_state 0 = Some (Reference 1)"
    by (simp add: cyclic_state_def entry_at_def)
  from fetch_one_hop [OF h] h show ?thesis by simp
qed

subsection \<open>as_object by variant\<close>

lemma as_object_Empty:
  assumes "entry_at s a = Some Empty"
  shows "as_object s a =
    Some (s\<lparr>entries := (entries s)[a := Object (length (objects s))],
            objects := objects s @ [EntryObjectDefault (Some a) []]\<rparr>,
          Inr (length (objects s)))"
  using assms
  by (subst as_object.simps)
     (simp add: EntryObject_create_def new_object_def emplace_def get_Object_def fetch_def
        entry_at_def split: if_splits)

lemma as_object_Object:
  "entry_at s a = Some (Object ob) \<Longrightarrow> as_object s a = Some (s, Inr ob)"
  by (subst as_object.simps) (simp add: get_Object_def fetch_def)

lemma as_object_other:
  "entry_at s a = Some e \<Longrightarrow> index e \<in> {TBlock, TArray, TScalar} \<Longrightarrow>
   as_object s a = Some (s, Inl TypeMismatch)"
  by (subst as_object.simps) (cases e; simp)

lemma as_object_invalid:
  "entry_at s a = None \<Longrightarrow> as_object s a = Some (s, Inl Undefined)"
  by (subst as_object.simps) simp

lemma as_object_Reference:
  "entry_at s a = Some (Reference b) \<Longrightarrow>
   as_object s a =
     Option.bind (as_object s b) (\<lambda>(s1, r).
       case r of Inl e \<Rightarrow> Some (s1, Inl e) | Inr _ \<Rightarrow> Some (s1, get_Object s1 (fetch s1 a)))"
  by (subst as_object.simps) simp

lemma as_object_Reference_direct:
  assumes a: "entry_at s a = Some (Reference b)"
    and b: "\<forall>c. entry_at s b \<noteq> Some (Reference c)"
  shows "as_object s a = as_object s b"
proof (cases "entry_at s b")
  case None
  then show ?thesis by (simp add: as_object_Reference [OF a] as_object_invalid)
next
  case (Some e)
  from a Some b have ne: "a \<noteq> b" by auto
  show ?thesis
  proof (cases e)
    case Empty
    with Some have eb: "entry_at s b = Some Empty" by simp
    show ?thesis
      using a ne eb
      by (simp add: as_object_Reference [OF a] as_object_Empty [OF eb] get_Object_def fetch_def
          entry_at_def split: if_splits)
  next
    case (Reference c)
    with Some b show ?thesis by simp
  next
    case (Object ob)
    with Some have eb: "entry_at s b = Some (Object ob)" by simp
    show ?thesis
      using a eb
      by (simp add: as_object_Reference [OF a] as_object_Object [OF eb] get_Object_def fetch_def)
  next
    case (Block x)
    with Some have "as_object s b = Some (s, Inl TypeMismatch)"
      by (intro as_object_other [where e = e]) simp_all
    then show ?thesis by (simp add: as_object_Reference [OF a])
  next
    case (Array x)
    with Some have "as_object s b = Some (s, Inl TypeMismatch)"
      by (intro as_object_other [where e = e]) simp_all
    then show ?thesis by (simp add: as_object_Reference [OF a])
  next
    case (Scalar x)
    with Some have "as_object s b = Some (s, Inl TypeMismatch)"
      by (intro as_object_other [where e = e]) simp_all
    then show ?thesis by (simp add: as_object_Reference [OF a])
  qed
qed

lemma as_object_Reference_forward:
  assumes a: "entry_at s a = Some (Reference b)"
  shows "(as_object s a = None \<longleftrightarrow> as_object s b = None) \<and>
         (\<forall>s1 r. as_object s b = Some (s1, r) \<longrightarrow>
            (\<exists>r'. as_object s a = Some (s1, r') \<and> (isl r \<longrightarrow> r' = r)))"
  by (cases "as_object s b") (auto simp: as_object_Reference [OF a] split: sum.splits)

text \<open>
  What holds of \<open>as_object\<close> case by case: an Empty entry is promoted to an Object that
  holds a new in-memory default container, which is returned; an Object returns its
  container and changes nothing; a Reference forwards the call to its target (the
  state is the one the forwarded call leaves, a failure of the forwarded call is
  passed on, and when the target is not a Reference itself the result is the target's
  result); a Block, Array or scalar fails with \<open>TypeMismatch\<close> and the state is unchanged.
  The case of a Reference whose target is a Reference again is settled below, in the
  subsection on chains.
\<close>

theorem as_object_by_variant:
  "(entry_at s a = Some Empty \<longrightarrow>
      as_object s a =
        Some (s\<lparr>entries := (entries s)[a := Object (length (objects s))],
                objects := objects s @ [EntryObjectDefault (Some a) []]\<rparr>,
              Inr (length (objects s)))) \<and>
   (\<forall>ob. entry_at s a = Some (Object ob) \<longrightarrow> as_object s a = Some (s, Inr ob)) \<and>
   (\<forall>b. entry_at s a = Some (Reference b) \<longrightarrow>
      (as_object s a = None \<longleftrightarrow> as_object s b = None) \<and>
      (\<forall>s1 r. as_object s b = Some (s1, r) \<longrightarrow>
         (\<exists>r'. as_object s a = Some (s1, r') \<and> (isl r \<longrightarrow> r' = r))) \<and>
      ((\<forall>c. entry_at s b \<noteq> Some (Reference c)) \<longrightarrow> as_object s a = as_object s b)) \<and>
   (\<forall>e. entry_at s a = Some e \<longrightarrow> index e \<in> {TBlock, TArray, TScalar} \<longrightarrow>
      as_object s a = Some (s, Inl TypeMismatch))"
  using as_object_Empty as_object_Object as_object_Reference_forward as_object_Reference_direct
    as_object_other
  by blast

lemma sample_entries:
  "entry_at sample_state 0 = Some (Object 0)"
  "entry_at sample_state 1 = Some (Reference 2)"
  "entry_at sample_state 2 = Some (Array 0)"
  "entry_at sample_state 3 = Some Empty"
  "entry_at sample_state 4 = Some (Scalar (Integer 5))"
  "entry_at sample_state 5 = Some (Reference 0)"
  by (simp_all add: sample_state_def entry_at_def)

theorem as_object_by_variant_witness:
  "as_object sample_state 3 =
     Some (sample_state
             \<lparr>entries := [Object 0, Reference 2, Array 0, Object 1, Scalar (Integer 5), Reference 0],
              objects := [EntryObjectDefault (Some 0) [(''a'', 1), (''n'', 4)],
                          EntryObjectDefault (Some 3) []]\<rparr>,
           Inr 1) \<and>
   as_object sample_state 0 = Some (sample_state, Inr 0) \<and>
   as_object sample_state 5 = Some (sample_state, Inr 0) \<and>
   as_object sample_state 4 = Some (sample_state, Inl TypeMismatch)"
proof -
  have upd: "sample_state\<lparr>entries := (entries sample_state)[3 := Object (length (objects sample_state))],
                objects := objects sample_state @ [EntryObjectDefault (Some 3) []]\<rparr> =
      sample_state
             \<lparr>entries := [Object 0, Reference 2, Array 0, Object 1, Scalar (Integer 5), Reference 0],
              objects := [EntryObjectDefault (Some 0) [(''a'', 1), (''n'', 4)],
                          EntryObjectDefault (Some 3) []]\<rparr>"
    "length (objects sample_state) = 1"
    by (simp_all add: sample_state_def)
  from as_object_by_variant [of sample_state 3] sample_entries(4) upd
  have e: "as_object sample_state 3 =
     Some (sample_state
             \<lparr>entries := [Object 0, Reference 2, Array 0, Object 1, Scalar (Integer 5), Reference 0],
              objects := [EntryObjectDefault (Some 0) [(''a'', 1), (''n'', 4)],
                          EntryObjectDefault (Some 3) []]\<rparr>,
           Inr 1)"
    by simp
  from as_object_by_variant [of sample_state 0] sample_entries(1)
  have o: "as_object sample_state 0 = Some (sample_state, Inr 0)"
    by simp
  from as_object_by_variant [of sample_state 5] sample_entries(6) sample_entries(1)
  have "as_object sample_state 5 = as_object sample_state 0"
    by simp
  with o have r: "as_object sample_state 5 = Some (sample_state, Inr 0)"
    by simp
  from as_object_by_variant [of sample_state 4] sample_entries(5)
  have t: "as_object sample_state 4 = Some (sample_state, Inl TypeMismatch)"
    by simp
  from e o r t show ?thesis by simp
qed

subsection \<open>Backend resolution\<close>

lemma find_char_absent: "c \<notin> set str \<Longrightarrow> find_char str c = None"
  by (induction str) auto

lemma find_char_present:
  "c \<in> set str \<Longrightarrow> find_char str c = Some (length (takeWhile (\<lambda>x. x \<noteq> c) str))"
  by (induction str) auto

lemma substr_before_first:
  "substr str 0 (length (takeWhile P str)) = takeWhile P str"
  by (simp add: substr_def takeWhile_eq_take [symmetric])

lemma drop_at_last:
  assumes "c \<in> set str"
  shows "drop (length str - 1 - length (takeWhile (\<lambda>x. x \<noteq> c) (rev str))) str =
         c # rev (takeWhile (\<lambda>x. x \<noteq> c) (rev str))"
proof -
  let ?P = "\<lambda>x. x \<noteq> c"
  let ?tw = "takeWhile ?P (rev str)"
  from assms have "dropWhile ?P (rev str) \<noteq> []"
    by (simp add: dropWhile_eq_Nil_conv)
  then obtain rest where dw: "dropWhile ?P (rev str) = c # rest"
    using hd_dropWhile [of ?P "rev str"] by (cases "dropWhile ?P (rev str)") auto
  have "rev str = ?tw @ c # rest"
    using takeWhile_dropWhile_id [of ?P "rev str"] dw by simp
  then have str: "str = rev rest @ c # rev ?tw"
    by (metis rev_rev_ident rev_append rev.simps(2) append_Cons append_Nil append_assoc)
  then have len: "length str = length rest + 1 + length ?tw"
    by (metis length_append length_rev length_Cons Suc_eq_plus1 add.assoc add.commute)
  have "drop (length rest) (rev rest @ c # rev ?tw) = c # rev ?tw"
    by simp
  with str len show ?thesis by simp
qed

lemma rfind_char_absent: "c \<notin> set str \<Longrightarrow> rfind_char str c = None"
  by (simp add: rfind_char_def find_char_absent)

lemma rfind_char_present:
  assumes "c \<in> set str"
  obtains pos where "rfind_char str c = Some pos"
    and "substr_from str pos = c # rev (takeWhile (\<lambda>x. x \<noteq> c) (rev str))"
proof
  show "rfind_char str c = Some (length str - 1 - length (takeWhile (\<lambda>x. x \<noteq> c) (rev str)))"
    using assms by (simp add: rfind_char_def find_char_present)
  show "substr_from str (length str - 1 - length (takeWhile (\<lambda>x. x \<noteq> c) (rev str))) =
        c # rev (takeWhile (\<lambda>x. x \<noteq> c) (rev str))"
    unfolding substr_from_def using assms by (rule drop_at_last)
qed

lemma schema_of_eq:
  "schema_of request =
     (if CHR '':'' \<in> set request then takeWhile (\<lambda>c. c \<noteq> CHR '':'') request
      else if CHR ''.'' \<in> set request
        then CHR ''.'' # rev (takeWhile (\<lambda>c. c \<noteq> CHR ''.'') (rev request))
      else request)"
proof (cases "CHR '':'' \<in> set request")
  case True
  then show ?thesis
    by (simp add: schema_of_def find_char_present substr_before_first)
next
  case colon: False
  show ?thesis
  proof (cases "CHR ''.'' \<in> set request")
    case True
    then obtain pos where "rfind_char request CHR ''.'' = Some pos"
      and "substr_from request pos = CHR ''.'' # rev (takeWhile (\<lambda>x. x \<noteq> CHR ''.'') (rev request))"
      by (rule rfind_char_present)
    with colon True show ?thesis
      by (simp add: schema_of_def find_char_absent)
  next
    case False
    with colon show ?thesis
      by (simp add: schema_of_def find_char_absent rfind_char_absent)
  qed
qed

text \<open>
  C5 (as stated, refuted). With a creator registered for \<open>h5\<close>, the scheme that the
  claim's words give for the request \<open>foo.h5\<close>, the code resolves the request to the
  schema \<open>.h5\<close> (the dot included) and fails, naming \<open>.h5\<close>.
\<close>

theorem create_h5_counterexample:
  "has_creator h5_state ''h5'' \<and>
   spec_scheme ''foo.h5'' = ''h5'' \<and>
   schema_of ''foo.h5'' = ''.h5'' \<and>
   EntryObject_create h5_state None ''foo.h5'' = (h5_state, Inl (UnknownBackend ''.h5''))"
  by (simp add: h5_state_def spec_scheme_def schema_of_def rfind_char_def substr_from_def
      EntryObject_create_def)

text \<open>
  C5 (amended). The schema of a request is the text before the first \<open>:\<close>; without a
  \<open>:\<close> it is the substring that starts at the last \<open>.\<close>, the dot included; without
  either it is the whole request. An empty schema (so also the empty request) gives the
  in-memory default. \<open>http\<close> and \<open>https\<close> are rejected when \<^verbatim>\<open>NOT_IMPLEMENTED\<close> throws.
  Otherwise a schema with a registered creator gives that backend, and one without
  fails with \<open>UnknownBackend\<close>, which names the schema.
\<close>

theorem create_resolution:
  "EntryObject_create s self request =
     (let schema =
        (if CHR '':'' \<in> set request then takeWhile (\<lambda>c. c \<noteq> CHR '':'') request
         else if CHR ''.'' \<in> set request
           then CHR ''.'' # rev (takeWhile (\<lambda>c. c \<noteq> CHR ''.'') (rev request))
         else request)
      in
        if schema = [] then new_object s (EntryObjectDefault self [])
        else if (schema = ''http'' \<or> schema = ''https'') \<and> not_implemented_throws s
          then (s, Inl NotImplemented)
        else if has_creator s schema then new_object s (EntryObjectPlugin self schema)
        else (s, Inl (UnknownBackend schema)))"
  by (simp add: EntryObject_create_def schema_of_eq Let_def)

lemma create_examples:
  "EntryObject_create h5_state None ''bogus://x'' = (h5_state, Inl (UnknownBackend ''bogus''))"
  "EntryObject_create h5_state None ''h5:foo'' =
     (h5_state\<lparr>objects := [EntryObjectPlugin None ''h5'']\<rparr>, Inr 0)"
  "EntryObject_create h5_state None [] =
     (h5_state\<lparr>objects := [EntryObjectDefault None []]\<rparr>, Inr 0)"
  "EntryObject_create h5_state None '':mem'' =
     (h5_state\<lparr>objects := [EntryObjectDefault None []]\<rparr>, Inr 0)"
  "EntryObject_create h5_state None ''foo'' = (h5_state, Inl (UnknownBackend ''foo''))"
  by (simp_all add: EntryObject_create_def schema_of_eq h5_state_def new_object_def Let_def)

subsection \<open>Keyed insertion\<close>

lemma insert_existing:
  "object_at s ob = Some (EntryObjectDefault self m) \<Longrightarrow> map_of m k = Some c \<Longrightarrow>
   EntryObjectDefault_insert s ob k = (s, Inr c)"
  by (simp add: EntryObjectDefault_insert_def)

lemma insert_fresh:
  assumes "object_at s ob = Some (EntryObjectDefault self m)" and "map_of m k = None"
  defines "c \<equiv> length (entries s)"
  defines "s' \<equiv> s\<lparr>entries := entries s @ [Empty],
                   objects := (objects s)[ob := EntryObjectDefault self (m @ [(k, c)])]\<rparr>"
  shows "EntryObjectDefault_insert s ob k = (s', Inr c)"
    and "entry_at s c = None"
    and "entry_at s' c = Some Empty"
    and "object_at s' ob = Some (EntryObjectDefault self (m @ [(k, c)]))"
    and "k' \<noteq> k \<Longrightarrow> map_of (m @ [(k, c)]) k' = map_of m k'"
    and "a < length (entries s) \<Longrightarrow> entry_at s' a = entry_at s a"
  using assms(1,2)
  by (auto simp: EntryObjectDefault_insert_def c_def s'_def entry_at_def object_at_def Let_def
      nth_append map_add_def split: if_splits option.splits)

lemma insert_twice:
  "EntryObjectDefault_insert s ob k = (s1, r) \<Longrightarrow> EntryObjectDefault_insert s1 ob k = (s1, r)"
  by (auto simp: EntryObjectDefault_insert_def object_at_def Let_def
      split: option.splits entry_object.splits if_splits)

lemma InMemory_insert_twice:
  "InMemory_insert mm k = (m1, p) \<Longrightarrow> InMemory_insert m1 k = (m1, p)"
  by (cases mm) (auto simp: InMemory_insert_def split: option.splits)

text \<open>
  C6. \<open>insert(k)\<close> on an in-memory object returns the existing child of \<open>k\<close> and changes
  nothing when the key is present; otherwise it makes a new Empty child under \<open>k\<close>, at
  an address no Entry had, leaves every other Entry and key as it was, and returns the
  new child. A second \<open>insert(k)\<close> returns the same child and leaves the state of the
  first. The same holds of \<^verbatim>\<open>EntryInterfaceInMemory::insert\<close>, whose new child is Null.
\<close>

theorem insert_key_idempotent:
  "(object_at s ob = Some (EntryObjectDefault self m) \<longrightarrow>
      (\<forall>c. map_of m k = Some c \<longrightarrow> EntryObjectDefault_insert s ob k = (s, Inr c)) \<and>
      (map_of m k = None \<longrightarrow>
         (\<exists>s'. EntryObjectDefault_insert s ob k = (s', Inr (length (entries s))) \<and>
               entry_at s (length (entries s)) = None \<and>
               entry_at s' (length (entries s)) = Some Empty \<and>
               object_at s' ob = Some (EntryObjectDefault self (m @ [(k, length (entries s))])) \<and>
               (\<forall>k'. k' \<noteq> k \<longrightarrow> map_of (m @ [(k, length (entries s))]) k' = map_of m k') \<and>
               (\<forall>a. a < length (entries s) \<longrightarrow> entry_at s' a = entry_at s a)))) \<and>
   (\<forall>s1 r. EntryObjectDefault_insert s ob k = (s1, r) \<longrightarrow> EntryObjectDefault_insert s1 ob k = (s1, r)) \<and>
   (\<forall>(kv :: (string \<times> ('s, 't, 'b) mem) list) child. map_of kv k = Some child \<longrightarrow>
      InMemory_insert (ObjectM kv) k = (ObjectM kv, It_key k)) \<and>
   (\<forall>kv :: (string \<times> ('s, 't, 'b) mem) list. map_of kv k = None \<longrightarrow>
      InMemory_insert (ObjectM kv) k = (ObjectM (kv @ [(k, NullM)]), It_key k) \<and>
      deref (ObjectM (kv @ [(k, NullM)])) (It_key k) = Some NullM \<and>
      (\<forall>k'. k' \<noteq> k \<longrightarrow>
         deref (ObjectM (kv @ [(k, NullM)])) (It_key k') = deref (ObjectM kv) (It_key k'))) \<and>
   (\<forall>m1 p. InMemory_insert (mm :: ('s, 't, 'b) mem) k = (m1, p) \<longrightarrow>
      InMemory_insert m1 k = (m1, p))"
proof (intro conjI impI allI)
  fix c assume "object_at s ob = Some (EntryObjectDefault self m)" "map_of m k = Some c"
  then show "EntryObjectDefault_insert s ob k = (s, Inr c)" by (rule insert_existing)
next
  assume h: "object_at s ob = Some (EntryObjectDefault self m)" "map_of m k = None"
  show "\<exists>s'. EntryObjectDefault_insert s ob k = (s', Inr (length (entries s))) \<and>
               entry_at s (length (entries s)) = None \<and>
               entry_at s' (length (entries s)) = Some Empty \<and>
               object_at s' ob = Some (EntryObjectDefault self (m @ [(k, length (entries s))])) \<and>
               (\<forall>k'. k' \<noteq> k \<longrightarrow> map_of (m @ [(k, length (entries s))]) k' = map_of m k') \<and>
               (\<forall>a. a < length (entries s) \<longrightarrow> entry_at s' a = entry_at s a)"
    using insert_fresh [OF h] by blast
next
  fix s1 r assume "EntryObjectDefault_insert s ob k = (s1, r)"
  then show "EntryObjectDefault_insert s1 ob k = (s1, r)" by (rule insert_twice)
next
  fix kv :: "(string \<times> ('s, 't, 'b) mem) list" and child
  assume "map_of kv k = Some child"
  then show "InMemory_insert (ObjectM kv) k = (ObjectM kv, It_key k)"
    by (simp add: InMemory_insert_def)
next
  fix kv :: "(string \<times> ('s, 't, 'b) mem) list"
  assume "map_of kv k = None"
  then show "InMemory_insert (ObjectM kv) k = (ObjectM (kv @ [(k, NullM)]), It_key k)"
    by (simp add: InMemory_insert_def)
next
  fix kv :: "(string \<times> ('s, 't, 'b) mem) list"
  assume "map_of kv k = None"
  then show "deref (ObjectM (kv @ [(k, NullM)])) (It_key k) = Some NullM"
    by (simp add: map_add_def)
next
  fix kv :: "(string \<times> ('s, 't, 'b) mem) list" and k'
  assume "map_of kv k = None" "k' \<noteq> k"
  then show "deref (ObjectM (kv @ [(k, NullM)])) (It_key k') = deref (ObjectM kv) (It_key k')"
    by (simp add: map_add_def split: option.splits)
next
  fix m1 p assume "InMemory_insert mm k = (m1, p)"
  then show "InMemory_insert m1 k = (m1, p)" by (rule InMemory_insert_twice)
qed

theorem insert_key_idempotent_witness:
  "EntryObjectDefault_insert sample_state 0 ''a'' = (sample_state, Inr 1) \<and>
   EntryObjectDefault_insert sample_state 0 ''b'' =
     (sample_state
        \<lparr>entries := [Object 0, Reference 2, Array 0, Empty, Scalar (Integer 5), Reference 0, Empty],
         objects := [EntryObjectDefault (Some 0) [(''a'', 1), (''n'', 4), (''b'', 6)]]\<rparr>,
      Inr 6) \<and>
   InMemory_insert (ObjectM [(''a'', SingleM (5 :: nat))] :: (nat, nat, nat) mem) ''a'' =
     (ObjectM [(''a'', SingleM 5)], It_key ''a'') \<and>
   InMemory_insert (ObjectM [(''a'', SingleM (5 :: nat))] :: (nat, nat, nat) mem) ''b'' =
     (ObjectM [(''a'', SingleM 5), (''b'', NullM)], It_key ''b'')"
proof -
  have h: "object_at sample_state 0 = Some (EntryObjectDefault (Some 0) [(''a'', 1), (''n'', 4)])"
    by (simp add: sample_state_def object_at_def)
  have b: "EntryObjectDefault_insert sample_state 0 ''b'' =
     (sample_state
        \<lparr>entries := [Object 0, Reference 2, Array 0, Empty, Scalar (Integer 5), Reference 0, Empty],
         objects := [EntryObjectDefault (Some 0) [(''a'', 1), (''n'', 4), (''b'', 6)]]\<rparr>,
      Inr 6)"
    by (simp add: EntryObjectDefault_insert_def h) (simp add: sample_state_def)
  note at_a = insert_key_idempotent [where s = sample_state and ob = 0 and self = "Some 0"
      and m = "[(''a'', 1), (''n'', 4)]" and k = "''a''"
      and mm = "NullM :: (nat, nat, nat) mem"]
  note at_b = insert_key_idempotent [where s = sample_state and ob = 0 and self = "Some 0"
      and m = "[(''a'', 1), (''n'', 4)]" and k = "''b''"
      and mm = "NullM :: (nat, nat, nat) mem"]
  from at_a [THEN conjunct1] h
  have a: "EntryObjectDefault_insert sample_state 0 ''a'' = (sample_state, Inr 1)"
    by simp
  from at_a [THEN conjunct2, THEN conjunct2, THEN conjunct1, rule_format,
      of "[(''a'', SingleM 5)]" "SingleM 5"]
  have la: "InMemory_insert (ObjectM [(''a'', SingleM (5 :: nat))] :: (nat, nat, nat) mem) ''a'' =
       (ObjectM [(''a'', SingleM 5)], It_key ''a'')"
    by simp
  from at_b [THEN conjunct2, THEN conjunct2, THEN conjunct2, THEN conjunct1, rule_format,
      of "[(''a'', SingleM 5)]"]
  have lb: "InMemory_insert (ObjectM [(''a'', SingleM (5 :: nat))] :: (nat, nat, nat) mem) ''b'' =
       (ObjectM [(''a'', SingleM 5), (''b'', NullM)], It_key ''b'')"
    by simp
  from a b la lb show ?thesis by simp
qed

subsection \<open>Indexed access and removal\<close>

text \<open>
  C7 (as stated, refuted). On an array of size 0, \<open>pop_back\<close> does not fail with
  \<open>OutOfRange\<close>: the code calls \<^verbatim>\<open>std::vector::pop_back\<close> with no test, which is undefined
  behaviour on an empty vector.
\<close>

theorem pop_back_empty_counterexample:
  "EntryArrayDefault_size empty_array_state 0 = Inr 0 \<and>
   EntryArrayDefault_pop_back empty_array_state 0 = (empty_array_state, Inl Undefined) \<and>
   Inl Undefined \<noteq> (Inl OutOfRange :: error + unit)"
  by (simp add: empty_array_state_def EntryArrayDefault_size_def EntryArrayDefault_pop_back_def
      array_at_def)

text \<open>
  C7 (amended). \<open>pop_back\<close> on a non-empty array removes exactly the last element: the
  elements before it stay, and no other array, Entry or object changes. On an empty
  array no \<open>OutOfRange\<close> is raised; the call is outside what the code defines.
\<close>

theorem pop_back_removes_last:
  "array_at s ar = Some arr \<Longrightarrow>
   (\<forall>xs x. a_container arr = xs @ [x] \<longrightarrow>
      (\<exists>s'. EntryArrayDefault_pop_back s ar = (s', Inr ()) \<and>
            array_at s' ar = Some (arr\<lparr>a_container := xs\<rparr>) \<and>
            (\<forall>other. other \<noteq> ar \<longrightarrow> array_at s' other = array_at s other) \<and>
            entries s' = entries s \<and> objects s' = objects s)) \<and>
   (a_container arr = [] \<longrightarrow> EntryArrayDefault_pop_back s ar = (s, Inl Undefined))"
  by (auto simp: EntryArrayDefault_pop_back_def array_at_def split: if_splits)

theorem pop_back_removes_last_witness:
  "array_at one_element_state 0 = Some \<lparr>a_self = Some 0, a_container = [1]\<rparr> \<and>
   EntryArrayDefault_pop_back one_element_state 0 =
     (one_element_state\<lparr>arrays := [\<lparr>a_self = Some 0, a_container = []\<rparr>]\<rparr>, Inr ()) \<and>
   EntryArrayDefault_pop_back empty_array_state 0 = (empty_array_state, Inl Undefined)"
proof -
  have h: "array_at one_element_state 0 = Some \<lparr>a_self = Some 0, a_container = [1]\<rparr>"
    by (simp add: one_element_state_def array_at_def)
  have h0: "array_at empty_array_state 0 = Some \<lparr>a_self = Some 0, a_container = []\<rparr>"
    by (simp add: empty_array_state_def array_at_def)
  have e: "EntryArrayDefault_pop_back one_element_state 0 =
     (one_element_state\<lparr>arrays := [\<lparr>a_self = Some 0, a_container = []\<rparr>]\<rparr>, Inr ())"
    by (simp add: one_element_state_def EntryArrayDefault_pop_back_def array_at_def)
  from pop_back_removes_last [OF h0, THEN conjunct2]
  have "EntryArrayDefault_pop_back empty_array_state 0 = (empty_array_state, Inl Undefined)"
    by simp
  with h e show ?thesis by simp
qed

lemma size_t_of_int_negative:
  assumes "i < 0" and "- (2 ^ 31) \<le> i"
  shows "2 ^ 63 \<le> size_t_of_int i"
proof -
  have "i mod 2 ^ 64 = (i + 2 ^ 64) mod 2 ^ 64"
    by simp
  also have "\<dots> = i + 2 ^ 64"
    using assms by (intro mod_pos_pos_trivial) simp_all
  finally show ?thesis
    using assms by (simp add: size_t_of_int_def)
qed

text \<open>
  C8 (as stated, refuted). \<^verbatim>\<open>Entry::operator[](int)\<close> with the index \<open>-1\<close> on an empty
  array appends a new Null element and returns it.
\<close>

theorem subscript_negative_counterexample:
  "Entry_subscript (ArrayM [] :: (unit, unit, unit) mem) (- 1) =
     (ArrayM [NullM], Inr (It_index 0))"
  by (simp add: Entry_subscript_def InMemory_push_back_def is_null_def)

text \<open>
  C8 (amended). \<^verbatim>\<open>EntryArrayDefault::at(i)\<close> fails with \<open>OutOfRange\<close> whenever the index,
  as a \<^verbatim>\<open>size_t\<close>, is not below the size; so does every negative \<^verbatim>\<open>int\<close> index (on an
  array of fewer than \<open>2^63\<close> elements), which is not wrapped to a valid position. It
  returns no state, so it creates nothing. \<^verbatim>\<open>Entry::operator[](int)\<close> of the older Entry
  takes a negative index as a request to append: it adds a Null element at the end
  and returns it.
\<close>

theorem array_at_out_of_range:
  "(array_at s ar = Some arr \<longrightarrow> length (a_container arr) \<le> size_t_of_int i \<longrightarrow>
      EntryArrayDefault_at s ar i = Inl OutOfRange) \<and>
   (array_at s ar = Some arr \<longrightarrow> i < 0 \<longrightarrow> - (2 ^ 31) \<le> i \<longrightarrow>
      length (a_container arr) < 2 ^ 63 \<longrightarrow>
      EntryArrayDefault_at s ar i = Inl OutOfRange) \<and>
   (j < 0 \<longrightarrow>
      Entry_subscript (ArrayM xs) j = (ArrayM (xs @ [NullM]), Inr (It_index (length xs))))"
  using size_t_of_int_negative [of i]
  by (auto simp: EntryArrayDefault_at_def vector_at_def Entry_subscript_def
      InMemory_push_back_def is_null_def)

theorem array_at_out_of_range_witness:
  "EntryArrayDefault_at one_element_state 0 1 = Inl OutOfRange \<and>
   EntryArrayDefault_at one_element_state 0 (- 1) = Inl OutOfRange \<and>
   EntryArrayDefault_at one_element_state 0 0 = Inr 1 \<and>
   Entry_subscript (ArrayM [SingleM (5 :: nat)] :: (nat, nat, nat) mem) (- 1) =
     (ArrayM [SingleM 5, NullM], Inr (It_index 1))"
proof -
  have h: "array_at one_element_state 0 = Some \<lparr>a_self = Some 0, a_container = [1]\<rparr>"
    by (simp add: one_element_state_def array_at_def)
  have s1: "size_t_of_int 1 = 1" and s0: "size_t_of_int 0 = 0"
    by (simp_all add: size_t_of_int_def)
  have ok: "EntryArrayDefault_at one_element_state 0 0 = Inr 1"
    by (simp add: EntryArrayDefault_at_def h vector_at_def s0)
  from array_at_out_of_range [where s = one_element_state and ar = 0
        and arr = "\<lparr>a_self = Some 0, a_container = [1]\<rparr>" and i = 1 and j = "- 1"
        and xs = "[SingleM 5] :: (nat, nat, nat) mem list"]
    array_at_out_of_range [where s = one_element_state and ar = 0
        and arr = "\<lparr>a_self = Some 0, a_container = [1]\<rparr>" and i = "- 1" and j = "- 1"
        and xs = "[SingleM 5] :: (nat, nat, nat) mem list"]
    h s1 ok
  show ?thesis by simp
qed

subsection \<open>Membership\<close>

lemma has_a_iff_absent:
  "Entry_has_a m key = (deref m (It_key key) = None)"
  by (cases m)
     (simp_all add: Entry_has_a_def Entry_find_def InMemory_find_def is_null_def
        split: option.splits)

lemma has_attribute_iff_absent:
  "Entry_has_attribute m name = (deref m (It_key (''@'' @ name)) = None)"
  by (cases m)
     (simp_all add: Entry_has_attribute_def InMemory_has_attribute_def InMemory_find_def
        is_null_def split: option.splits)

text \<open>
  C10 (the code departs from the claim). On an object whose only child is \<open>a\<close>,
  \<open>has_a("a")\<close> is false and \<open>has_a("b")\<close> is true, while \<open>find\<close> succeeds for \<open>a\<close> and
  not for \<open>b\<close>; \<open>has_attribute\<close> is inverted in the same way.
\<close>

theorem has_a_inverted:
  "Entry_has_a (ObjectM [(''a'', NullM)] :: (unit, unit, unit) mem) ''a'' = False \<and>
   Entry_has_a (ObjectM [(''a'', NullM)] :: (unit, unit, unit) mem) ''b'' = True \<and>
   Entry_find (ObjectM [(''a'', NullM)] :: (unit, unit, unit) mem) ''a'' = It_key ''a'' \<and>
   Entry_find (ObjectM [(''a'', NullM)] :: (unit, unit, unit) mem) ''b'' = It_null \<and>
   Entry_has_attribute (ObjectM [(''@unit'', NullM)] :: (unit, unit, unit) mem) ''unit'' = False \<and>
   Entry_has_attribute (ObjectM [(''@unit'', NullM)] :: (unit, unit, unit) mem) ''name'' = True"
  by (simp add: Entry_has_a_def Entry_find_def InMemory_find_def is_null_def
      Entry_has_attribute_def InMemory_has_attribute_def)

subsection \<open>Walking a path never grows an array\<close>

lemma arrays_kept_refl: "arrays_kept s s"
  by (simp add: arrays_kept_def)

lemma arrays_kept_same: "arrays s' = arrays s \<Longrightarrow> arrays_kept s s'"
  by (simp add: arrays_kept_def)

lemma arrays_kept_appendD:
  "arrays_kept s s' \<Longrightarrow> \<exists>new. arrays s' = arrays s @ new \<and> list_all (\<lambda>arr. a_container arr = []) new"
  unfolding arrays_kept_def
  by (metis append_take_drop_id)

lemma arrays_kept_appendI:
  "arrays s' = arrays s @ new \<Longrightarrow> list_all (\<lambda>arr. a_container arr = []) new \<Longrightarrow> arrays_kept s s'"
  by (simp add: arrays_kept_def)

lemma arrays_kept_trans:
  assumes "arrays_kept s s1" and "arrays_kept s1 s2"
  shows "arrays_kept s s2"
proof -
  from assms(1) obtain n1 where 1: "arrays s1 = arrays s @ n1" "list_all (\<lambda>arr. a_container arr = []) n1"
    by (blast dest: arrays_kept_appendD)
  from assms(2) obtain n2 where 2: "arrays s2 = arrays s1 @ n2" "list_all (\<lambda>arr. a_container arr = []) n2"
    by (blast dest: arrays_kept_appendD)
  from 1 2 have "arrays s2 = arrays s @ (n1 @ n2)" "list_all (\<lambda>arr. a_container arr = []) (n1 @ n2)"
    by simp_all
  then show ?thesis by (rule arrays_kept_appendI)
qed

lemma as_object_arrays_aux:
  assumes "as_object s a = Some y"
  shows "arrays (fst y) = arrays s"
  by (rule as_object.raw_induct [where P = "\<lambda>s a y. arrays (fst y) = arrays s", OF _ assms])
     (auto simp: EntryObject_create_def new_object_def emplace_def Let_def
        split: option.splits entry.splits prod.splits sum.splits Option.bind_splits)

lemma as_object_arrays:
  "as_object s a = Some (s', r) \<Longrightarrow> arrays s' = arrays s"
  by (drule as_object_arrays_aux) simp

lemma as_array_arrays_aux:
  assumes "as_array s a = Some y"
  shows "arrays_kept s (fst y)"
  by (rule as_array.raw_induct [where P = "\<lambda>s a y. arrays_kept s (fst y)", OF _ assms])
     (auto simp: EntryArray_create_def new_array_def emplace_def Let_def arrays_kept_refl
        intro: arrays_kept_appendI [where new = "[x]" for x]
        split: option.splits entry.splits prod.splits sum.splits Option.bind_splits)

lemma as_array_arrays:
  "as_array s a = Some (s', r) \<Longrightarrow> arrays_kept s s'"
  by (drule as_array_arrays_aux) simp

lemma EntryObjectDefault_insert_arrays:
  "EntryObjectDefault_insert s ob k = (s', r) \<Longrightarrow> arrays s' = arrays s"
  by (auto simp: EntryObjectDefault_insert_def Let_def
      split: option.splits entry_object.splits)

lemma insert_step_arrays:
  assumes "insert_step s p seg = Some (s', r)"
  shows "arrays_kept s s'"
proof (cases seg)
  case (Key k)
  with assms obtain s1 r1 where ao: "as_object s p = Some (s1, r1)"
    and rest: "(case r1 of Inl e \<Rightarrow> Some (s1, Inl e)
                | Inr ob \<Rightarrow> Some (EntryObjectDefault_insert s1 ob k)) = Some (s', r)"
    by (auto simp: insert_step_def split: Option.bind_splits)
  from ao have 1: "arrays s1 = arrays s" by (rule as_object_arrays)
  from rest have "arrays s' = arrays s1"
    by (cases r1) (auto dest: EntryObjectDefault_insert_arrays)
  with 1 show ?thesis by (simp add: arrays_kept_same)
next
  case (Index i)
  with assms obtain s1 r1 where aa: "as_array s p = Some (s1, r1)" and "s' = s1"
    by (auto simp: insert_step_def split: Option.bind_splits sum.splits)
  then show ?thesis by (simp add: as_array_arrays)
qed

lemma insert_walk_arrays:
  "insert_walk s p path = Some (s', r) \<Longrightarrow> arrays_kept s s'"
proof (induction path arbitrary: s p)
  case Nil
  then show ?case by (simp add: arrays_kept_refl)
next
  case (Cons seg path)
  from Cons.prems obtain s1 r1 where step: "insert_step s p seg = Some (s1, r1)"
    by (auto split: option.splits)
  then have k1: "arrays_kept s s1" by (rule insert_step_arrays)
  show ?case
  proof (cases r1)
    case (Inl e)
    with Cons.prems step have "s' = s1" by simp
    with k1 show ?thesis by simp
  next
    case (Inr c)
    with Cons.prems step have "insert_walk s1 c path = Some (s', r)" by simp
    then have "arrays_kept s1 s'" by (rule Cons.IH)
    with k1 show ?thesis by (rule arrays_kept_trans)
  qed
qed





lemma update_not_Reference:
  "entry_at s a = Some e \<Longrightarrow> index e \<noteq> TReference \<Longrightarrow> update s a = Some (Inr ())"
  by (subst update.simps) (cases e; simp)

lemma update_Reference:
  "entry_at s a = Some (Reference b) \<Longrightarrow> update s a = update s b"
  by (subst update.simps) simp

lemma as_array_Array:
  "entry_at s a = Some (Array ar) \<Longrightarrow> as_array s a = Some (s, Inr ar)"
  by (subst as_array.simps) (simp add: get_Array_def fetch_def)

lemma as_array_Empty:
  assumes "entry_at s a = Some Empty"
  shows "as_array s a =
    Some (s\<lparr>entries := (entries s)[a := Array (length (arrays s))],
            arrays := arrays s @ [\<lparr>a_self = Some a, a_container = []\<rparr>]\<rparr>,
          Inr (length (arrays s)))"
  using assms
  by (subst as_array.simps)
     (simp add: EntryArray_create_def new_array_def emplace_def get_Array_def fetch_def
        entry_at_def split: if_splits)

lemma as_array_Reference:
  "entry_at s a = Some (Reference b) \<Longrightarrow>
   as_array s a =
     Option.bind (as_array s b) (\<lambda>(s1, r).
       case r of
         Inl e \<Rightarrow> Some (s1, Inl e)
       | Inr _ \<Rightarrow>
           Option.bind (update s1 a) (\<lambda>u.
             case u of
               Inl e \<Rightarrow> Some (s1, Inl e)
             | Inr _ \<Rightarrow> Some (s1, get_Array s1 (fetch s1 a))))"
  by (subst as_array.simps) simp

lemma sample_as_array:
  "as_array sample_state 2 = Some (sample_state, Inr 0)"
  "as_array sample_state 1 = Some (sample_state, Inr 0)"
proof -
  show 2: "as_array sample_state 2 = Some (sample_state, Inr 0)"
    by (simp add: as_array_Array sample_entries)
  have "update sample_state 2 = Some (Inr ())"
    by (rule update_not_Reference [OF sample_entries(3)]) simp
  with update_Reference [OF sample_entries(2)]
  have "update sample_state 1 = Some (Inr ())"
    by simp
  with as_array_Reference [OF sample_entries(2)] 2 sample_entries(2,3)
  show "as_array sample_state 1 = Some (sample_state, Inr 0)"
    by (simp add: get_Array_def fetch_def)
qed

lemma sample_array: "array_at sample_state 0 = Some \<lparr>a_self = Some 2, a_container = [3]\<rparr>"
  by (simp add: sample_state_def array_at_def)

lemma sample_object: "object_at sample_state 0 = Some (EntryObjectDefault (Some 0) [(''a'', 1), (''n'', 4)])"
  by (simp add: sample_state_def object_at_def)


text \<open>The two operations that do add elements to an array.\<close>

lemma push_back_grows:
  assumes "array_at s ar = Some arr" and "EntryArrayDefault_push_back s ar = (s', r)"
  shows "r = Inr (length (entries s))"
    and "array_at s' ar = Some (arr\<lparr>a_container := a_container arr @ [length (entries s)]\<rparr>)"
    and "entry_at s' (length (entries s)) = Some Empty"
  using assms
  by (auto simp: EntryArrayDefault_push_back_def Let_def array_at_def entry_at_def
      split: if_splits)

lemma resize_size:
  assumes "array_at s ar = Some arr" and "EntryArrayDefault_resize s ar num = (s', r)"
  shows "EntryArrayDefault_size s' ar = Inr num"
  using assms
  by (auto simp: EntryArrayDefault_resize_def EntryArrayDefault_size_def Let_def array_at_def
      split: if_splits)



subsection \<open>insert followed by at\<close>

lemma entries_kept_refl: "entries_kept s s"
  by (simp add: entries_kept_def)

lemma entries_kept_trans:
  "entries_kept s s1 \<Longrightarrow> entries_kept s1 s2 \<Longrightarrow> entries_kept s s2"
  unfolding entries_kept_def
  by (metis order_trans less_le_trans)

lemma object_kept_refl: "object_kept obj obj"
  by (cases obj) (simp_all add: list_all_iff)

lemma object_kept_Default:
  "object_kept (EntryObjectDefault self m) obj' \<longleftrightarrow>
     (\<exists>m'. obj' = EntryObjectDefault self m' \<and> (\<forall>k c. map_of m k = Some c \<longrightarrow> map_of m' k = Some c))"
proof (cases obj')
  case (EntryObjectDefault self' m')
  have "list_all (\<lambda>k. map_of m' k = map_of m k) (map fst m) \<longleftrightarrow>
        (\<forall>k c. map_of m k = Some c \<longrightarrow> map_of m' k = Some c)"
    unfolding list_all_iff
    by (metis domI map_of_SomeD weak_map_of_SomeI dom_map_of_conv_image_fst domD fst_conv image_eqI list.set_map)
  with EntryObjectDefault show ?thesis by auto
next
  case (EntryObjectPlugin x y)
  then show ?thesis by simp
qed

lemma object_kept_trans:
  "object_kept x y \<Longrightarrow> object_kept y z \<Longrightarrow> object_kept x z"
  by (cases x) (auto simp: object_kept_Default)

lemma objects_kept_refl: "objects_kept s s"
  by (simp add: objects_kept_def object_kept_refl)

lemma objects_kept_same: "objects s' = objects s \<Longrightarrow> objects_kept s s'"
  by (simp add: objects_kept_def object_kept_refl)

lemma objects_kept_trans:
  assumes "objects_kept s s1" and "objects_kept s1 s2"
  shows "objects_kept s s2"
  unfolding objects_kept_def
proof (intro conjI allI impI)
  from assms show "length (objects s) \<le> length (objects s2)"
    by (simp add: objects_kept_def)
next
  fix ob assume ob: "ob < length (objects s)"
  with assms(1) have 1: "object_kept (objects s ! ob) (objects s1 ! ob)" "ob < length (objects s1)"
    by (simp_all add: objects_kept_def)
  with assms(2) have "object_kept (objects s1 ! ob) (objects s2 ! ob)"
    by (simp add: objects_kept_def)
  with 1 show "object_kept (objects s ! ob) (objects s2 ! ob)"
    by (blast intro: object_kept_trans)
qed

lemma entries_kept_promote:
  "entry_at s a = Some Empty \<Longrightarrow> entries s' = (entries s)[a := e] \<Longrightarrow> entries_kept s s'"
  by (auto simp: entries_kept_def entry_at_def nth_list_update split: if_splits)

lemma entries_kept_append:
  "entries s' = entries s @ new \<Longrightarrow> entries_kept s s'"
  by (simp add: entries_kept_def nth_append)

lemma objects_kept_append:
  "objects s' = objects s @ new \<Longrightarrow> objects_kept s s'"
  by (simp add: objects_kept_def nth_append object_kept_refl)

lemma as_object_entries_aux:
  assumes "as_object s a = Some y"
  shows "entries_kept s (fst y) \<and> objects_kept s (fst y)"
proof (rule as_object.raw_induct
    [where P = "\<lambda>s a y. entries_kept s (fst y) \<and> objects_kept s (fst y)", OF _ assms])
  fix f :: "state \<Rightarrow> addr \<Rightarrow> (state \<times> (error + addr)) option" and s a y
  assume IH: "\<And>s a y. f s a = Some y \<Longrightarrow> entries_kept s (fst y) \<and> objects_kept s (fst y)"
  assume body: "(case entry_at s a of
        None \<Rightarrow> Some (s, Inl Undefined)
      | Some Empty \<Rightarrow>
          (case EntryObject_create s (Some a) [] of
             (s1, Inl e) \<Rightarrow> Some (s1, Inl e)
           | (s1, Inr ob) \<Rightarrow>
               (let s2 = emplace s1 a (Object ob) in Some (s2, get_Object s2 (fetch s2 a))))
      | Some (Reference b) \<Rightarrow>
          Option.bind (f s b) (\<lambda>(s1, r).
            case r of
              Inl e \<Rightarrow> Some (s1, Inl e)
            | Inr _ \<Rightarrow> Some (s1, get_Object s1 (fetch s1 a)))
      | Some (Object _) \<Rightarrow> Some (s, get_Object s (fetch s a))
      | Some _ \<Rightarrow> Some (s, Inl TypeMismatch)) = Some y"
  show "entries_kept s (fst y) \<and> objects_kept s (fst y)"
  proof (cases "entry_at s a")
    case None
    with body show ?thesis by (auto simp: entries_kept_refl objects_kept_refl)
  next
    case (Some e)
    show ?thesis
    proof (cases e)
      case Empty
      with Some body have y: "fst y = s\<lparr>entries := (entries s)[a := Object (length (objects s))],
            objects := objects s @ [EntryObjectDefault (Some a) []]\<rparr>"
        by (auto simp: EntryObject_create_def new_object_def emplace_def Let_def)
      from Some Empty have "entry_at s a = Some Empty" by simp
      then have "entries_kept s (fst y)"
        by (rule entries_kept_promote) (simp add: y)
      moreover have "objects_kept s (fst y)"
        by (rule objects_kept_append) (simp add: y)
      ultimately show ?thesis ..
    next
      case (Reference b)
      with Some body obtain s1 r where "f s b = Some (s1, r)" and "fst y = s1"
        by (auto split: Option.bind_splits sum.splits)
      with IH [of s b "(s1, r)"] show ?thesis by simp
    qed (use Some body in \<open>auto simp: entries_kept_refl objects_kept_refl\<close>)
  qed
qed

lemma as_object_kept:
  assumes "as_object s a = Some (s', r)"
  shows "entries_kept s s'" and "objects_kept s s'" and "arrays_kept s s'"
  using as_object_entries_aux [OF assms] as_object_arrays [OF assms]
  by (simp_all add: arrays_kept_same)

lemma as_array_entries_aux:
  assumes "as_array s a = Some y"
  shows "entries_kept s (fst y) \<and> objects (fst y) = objects s"
proof (rule as_array.raw_induct
    [where P = "\<lambda>s a y. entries_kept s (fst y) \<and> objects (fst y) = objects s", OF _ assms])
  fix f :: "state \<Rightarrow> addr \<Rightarrow> (state \<times> (error + addr)) option" and s a y
  assume IH: "\<And>s a y. f s a = Some y \<Longrightarrow> entries_kept s (fst y) \<and> objects (fst y) = objects s"
  assume body: "(case entry_at s a of
        None \<Rightarrow> Some (s, Inl Undefined)
      | Some Empty \<Rightarrow>
          (case EntryArray_create s (Some a) [] of
             (s1, Inl e) \<Rightarrow> Some (s1, Inl e)
           | (s1, Inr ar) \<Rightarrow>
               (let s2 = emplace s1 a (Array ar) in Some (s2, get_Array s2 (fetch s2 a))))
      | Some (Reference b) \<Rightarrow>
          Option.bind (f s b) (\<lambda>(s1, r).
            case r of
              Inl e \<Rightarrow> Some (s1, Inl e)
            | Inr _ \<Rightarrow>
                Option.bind (update s1 a) (\<lambda>u.
                  case u of
                    Inl e \<Rightarrow> Some (s1, Inl e)
                  | Inr _ \<Rightarrow> Some (s1, get_Array s1 (fetch s1 a))))
      | Some (Array _) \<Rightarrow> Some (s, get_Array s (fetch s a))
      | Some _ \<Rightarrow> Some (s, Inl TypeMismatch)) = Some y"
  show "entries_kept s (fst y) \<and> objects (fst y) = objects s"
  proof (cases "entry_at s a")
    case None
    with body show ?thesis by (auto simp: entries_kept_refl)
  next
    case (Some e)
    show ?thesis
    proof (cases e)
      case Empty
      with Some body have y: "fst y = s\<lparr>entries := (entries s)[a := Array (length (arrays s))],
            arrays := arrays s @ [\<lparr>a_self = Some a, a_container = []\<rparr>]\<rparr>"
        by (auto simp: EntryArray_create_def new_array_def emplace_def Let_def)
      from Some Empty have "entry_at s a = Some Empty" by simp
      then have "entries_kept s (fst y)"
        by (rule entries_kept_promote) (simp add: y)
      then show ?thesis by (simp add: y)
    next
      case (Reference b)
      with Some body obtain s1 r where "f s b = Some (s1, r)" and "fst y = s1"
        by (auto split: Option.bind_splits sum.splits)
      with IH [of s b "(s1, r)"] show ?thesis by simp
    qed (use Some body in \<open>auto simp: entries_kept_refl\<close>)
  qed
qed

lemma as_array_kept:
  assumes "as_array s a = Some (s', r)"
  shows "entries_kept s s'" and "objects_kept s s'" and "arrays_kept s s'"
  using as_array_entries_aux [OF assms] as_array_arrays [OF assms]
  by (simp_all add: objects_kept_same)

lemma EntryObjectDefault_insert_kept:
  assumes "EntryObjectDefault_insert s ob k = (s', r)"
  shows "entries_kept s s'" and "objects_kept s s'" and "arrays_kept s s'"
proof -
  show "arrays_kept s s'"
    using EntryObjectDefault_insert_arrays [OF assms] by (rule arrays_kept_same)
  show "entries_kept s s'"
    using assms
    by (auto simp: EntryObjectDefault_insert_def Let_def entries_kept_refl
        intro: entries_kept_append split: option.splits entry_object.splits)
  show "objects_kept s s'"
  proof (cases "object_at s ob")
    case None
    with assms show ?thesis by (auto simp: EntryObjectDefault_insert_def objects_kept_refl)
  next
    case (Some obj)
    show ?thesis
    proof (cases obj)
      case (EntryObjectPlugin x y)
      with Some assms show ?thesis
        by (auto simp: EntryObjectDefault_insert_def objects_kept_refl)
    next
      case (EntryObjectDefault self m)
      show ?thesis
      proof (cases "map_of m k")
        case (Some c)
        with \<open>object_at s ob = Some obj\<close> EntryObjectDefault assms show ?thesis
          by (auto simp: EntryObjectDefault_insert_def objects_kept_refl)
      next
        case None
        with \<open>object_at s ob = Some obj\<close> EntryObjectDefault assms
        have s': "objects s' = (objects s)[ob := EntryObjectDefault self (m @ [(k, length (entries s))])]"
          and ob: "ob < length (objects s)" "objects s ! ob = EntryObjectDefault self m"
          by (auto simp: EntryObjectDefault_insert_def Let_def object_at_def split: if_splits)
        have "object_kept (EntryObjectDefault self m)
                (EntryObjectDefault self (m @ [(k, length (entries s))]))"
          by (simp add: object_kept_Default map_add_Some_iff)
        with s' ob show ?thesis
          by (auto simp: objects_kept_def nth_list_update object_kept_refl)
      qed
    qed
  qed
qed

lemma insert_step_kept:
  assumes "insert_step s p seg = Some (s', r)"
  shows "entries_kept s s' \<and> objects_kept s s'"
proof (cases seg)
  case (Key k)
  with assms obtain s1 r1 where ao: "as_object s p = Some (s1, r1)"
    and rest: "(case r1 of Inl e \<Rightarrow> Some (s1, Inl e)
                | Inr ob \<Rightarrow> Some (EntryObjectDefault_insert s1 ob k)) = Some (s', r)"
    by (auto simp: insert_step_def split: Option.bind_splits)
  note k1 = as_object_kept [OF ao]
  show ?thesis
  proof (cases r1)
    case (Inl e)
    with rest k1 show ?thesis by simp
  next
    case (Inr ob)
    with rest have "EntryObjectDefault_insert s1 ob k = (s', r)" by simp
    from EntryObjectDefault_insert_kept [OF this] k1 show ?thesis
      by (blast intro: entries_kept_trans objects_kept_trans)
  qed
next
  case (Index i)
  with assms obtain s1 r1 where aa: "as_array s p = Some (s1, r1)" and "s' = s1"
    by (auto simp: insert_step_def split: Option.bind_splits sum.splits)
  with as_array_kept [OF aa] show ?thesis by simp
qed

lemma insert_walk_kept:
  "insert_walk s p path = Some (s', r) \<Longrightarrow> entries_kept s s' \<and> objects_kept s s'"
proof (induction path arbitrary: s p)
  case Nil
  then show ?case by (simp add: entries_kept_refl objects_kept_refl)
next
  case (Cons seg path)
  from Cons.prems obtain s1 r1 where step: "insert_step s p seg = Some (s1, r1)"
    by (auto split: option.splits)
  note k1 = insert_step_kept [OF step]
  show ?case
  proof (cases r1)
    case (Inl e)
    with Cons.prems step have "s' = s1" by simp
    with k1 show ?thesis by simp
  next
    case (Inr c)
    with Cons.prems step have "insert_walk s1 c path = Some (s', r)" by simp
    from Cons.IH [OF this] k1 show ?thesis
      by (blast intro: entries_kept_trans objects_kept_trans)
  qed
qed

lemma as_object_result:
  assumes "as_object s a = Some (s1, Inr ob)"
  shows "get_Object s1 (fetch s1 a) = Inr ob"
  using assms
  by (subst (asm) as_object.simps)
     (auto simp: Let_def split: option.splits entry.splits prod.splits sum.splits
        Option.bind_splits)

lemma as_array_result:
  assumes "as_array s a = Some (s1, Inr ar)"
  shows "get_Array s1 (fetch s1 a) = Inr ar"
  using assms
  by (subst (asm) as_array.simps)
     (auto simp: Let_def split: option.splits entry.splits prod.splits sum.splits
        Option.bind_splits)

lemma entries_kept_entry_at:
  "entries_kept s s' \<Longrightarrow> entry_at s a = Some e \<Longrightarrow> e \<noteq> Empty \<Longrightarrow> entry_at s' a = Some e"
  by (auto simp: entries_kept_def entry_at_def split: if_splits)

lemma get_Object_kept:
  assumes "get_Object s (fetch s a) = Inr ob" and k: "entries_kept s s'"
  shows "as_object_const s' a = Inr ob"
proof -
  from assms(1) obtain e where e: "entry_at s a = Some e"
    by (auto simp: get_Object_def fetch_def split: option.splits)
  show ?thesis
  proof (cases e)
    case (Reference b)
    with e assms(1) have b: "entry_at s b = Some (Object ob)"
      by (auto simp: get_Object_def fetch_def split: option.splits entry.splits)
    from entries_kept_entry_at [OF k e] Reference have "entry_at s' a = Some (Reference b)"
      by simp
    moreover from entries_kept_entry_at [OF k b] have "entry_at s' b = Some (Object ob)"
      by simp
    ultimately show ?thesis
      by (simp add: as_object_const_def type_of_def fetch_def get_Object_def)
  next
    case (Object ob')
    with e assms(1) have "ob' = ob"
      by (simp add: get_Object_def fetch_def)
    with entries_kept_entry_at [OF k e] Object have "entry_at s' a = Some (Object ob)"
      by simp
    then show ?thesis
      by (simp add: as_object_const_def type_of_def fetch_def get_Object_def)
  qed (use e assms(1) in \<open>simp_all add: get_Object_def fetch_def\<close>)
qed

lemma EntryObjectDefault_insert_result:
  assumes "EntryObjectDefault_insert s ob k = (s1, Inr q)"
  shows "\<exists>self m. object_at s1 ob = Some (EntryObjectDefault self m) \<and> map_of m k = Some q"
  using assms
  by (auto simp: EntryObjectDefault_insert_def Let_def object_at_def map_add_def
      split: option.splits entry_object.splits if_splits)

lemma EntryObjectDefault_at_kept:
  assumes "object_at s ob = Some (EntryObjectDefault self m)" and "map_of m k = Some q"
    and "objects_kept s s'"
  shows "EntryObjectDefault_at s' ob k = Inr q"
proof -
  from assms(1) have ob: "ob < length (objects s)" "objects s ! ob = EntryObjectDefault self m"
    by (auto simp: object_at_def split: if_splits)
  with assms(3) have "object_kept (EntryObjectDefault self m) (objects s' ! ob)"
    and "ob < length (objects s')"
    by (auto simp: objects_kept_def)
  with assms(2) show ?thesis
    by (auto simp: object_kept_Default EntryObjectDefault_at_def object_at_def)
qed

lemma arrays_kept_array_at:
  "arrays_kept s s' \<Longrightarrow> array_at s ar = Some arr \<Longrightarrow> array_at s' ar = Some arr"
  by (auto simp: array_at_def nth_append dest!: arrays_kept_appendD split: if_splits)

lemma at_step_Key_kept:
  assumes step: "insert_step s p (Key k) = Some (s1, Inr q)"
    and k: "entries_kept s1 s'" "objects_kept s1 s'"
  shows "at_step s' p (Key k) = Inr q"
proof -
  from step obtain s0 ob where ao: "as_object s p = Some (s0, Inr ob)"
    and ins: "EntryObjectDefault_insert s0 ob k = (s1, Inr q)"
    by (auto simp: insert_step_def split: Option.bind_splits sum.splits)
  from EntryObjectDefault_insert_kept(1) [OF ins] k(1) have "entries_kept s0 s'"
    by (rule entries_kept_trans)
  with as_object_result [OF ao] have c: "as_object_const s' p = Inr ob"
    by (rule get_Object_kept)
  from EntryObjectDefault_insert_result [OF ins] obtain self m
    where "object_at s1 ob = Some (EntryObjectDefault self m)" "map_of m k = Some q"
    by blast
  then have "EntryObjectDefault_at s' ob k = Inr q"
    using k(2) by (rule EntryObjectDefault_at_kept)
  with c show ?thesis by (simp add: at_step_def)
qed

lemma at_step_Index_kept:
  assumes step: "insert_step s p (Index i) = Some (s1, Inr q)"
    and k: "entries_kept s1 s'" "arrays_kept s1 s'"
  shows "at_step s' p (Index i) = Inr q \<or> at_step s' p (Index i) = Inl TypeMismatch"
proof -
  from step obtain ar where aa: "as_array s p = Some (s1, Inr ar)"
    and at: "EntryArrayDefault_at s1 ar i = Inr q"
    by (auto simp: insert_step_def split: Option.bind_splits sum.splits)
  note res = as_array_result [OF aa]
  then obtain e where e: "entry_at s1 p = Some e"
    by (auto simp: get_Array_def fetch_def split: option.splits)
  from at obtain arr where arr: "array_at s1 ar = Some arr"
    by (auto simp: EntryArrayDefault_at_def split: option.splits)
  from arrays_kept_array_at [OF k(2) arr] at arr
  have at': "EntryArrayDefault_at s' ar i = Inr q"
    by (simp add: EntryArrayDefault_at_def)
  show ?thesis
  proof (cases e)
    case (Array ar')
    with e res have "ar' = ar"
      by (simp add: get_Array_def fetch_def)
    with entries_kept_entry_at [OF k(1) e] Array have "entry_at s' p = Some (Array ar)"
      by simp
    then have "as_array_const s' p = Inr ar"
      by (simp add: as_array_const_def fetch_def get_Array_def)
    with at' show ?thesis by (simp add: at_step_def)
  next
    case (Reference b)
    with entries_kept_entry_at [OF k(1) e] have "entry_at s' p = Some (Reference b)"
      by simp
    then have "as_array_const s' p = Inl TypeMismatch"
      by (simp add: as_array_const_def)
    then show ?thesis by (simp add: at_step_def)
  qed (use e res in \<open>simp_all add: get_Array_def fetch_def\<close>)
qed

lemma insert_walk_arrays_entries_kept:
  assumes "insert_walk s p path = Some (s', r)"
  shows "entries_kept s s'" and "objects_kept s s'" and "arrays_kept s s'"
  using insert_walk_kept [OF assms] insert_walk_arrays [OF assms] by simp_all

text \<open>
  After a walk of \<open>insert\<close> that returns the node \<open>c\<close>, the walk of \<open>at\<close> over the same
  path in the resulting state returns \<open>c\<close>, the same address, or fails with
  \<open>TypeMismatch\<close>; it never returns another node, and it can fail only when the path has
  an \<open>Index\<close> segment.
\<close>

theorem insert_then_at:
  "insert_walk s p path = Some (s', Inr c) \<Longrightarrow>
   at_walk s' p path = Inr c \<or>
   (at_walk s' p path = Inl TypeMismatch \<and> (\<exists>i. Index i \<in> set path))"
proof (induction path arbitrary: s p)
  case Nil
  then show ?case by simp
next
  case (Cons seg path)
  from Cons.prems obtain s1 q where step: "insert_step s p seg = Some (s1, Inr q)"
    and rest: "insert_walk s1 q path = Some (s', Inr c)"
    by (auto split: option.splits sum.splits)
  note k = insert_walk_arrays_entries_kept [OF rest]
  from Cons.IH [OF rest]
  have IH: "at_walk s' q path = Inr c \<or>
     (at_walk s' q path = Inl TypeMismatch \<and> (\<exists>i. Index i \<in> set path))" .
  show ?case
  proof (cases seg)
    case (Key k')
    with step have "at_step s' p (Key k') = Inr q"
      using k(1,2) by (intro at_step_Key_kept) simp_all
    with Key IH show ?thesis by auto
  next
    case (Index i)
    with step have "at_step s' p (Index i) = Inr q \<or> at_step s' p (Index i) = Inl TypeMismatch"
      using k(1,3) by (intro at_step_Index_kept) simp_all
    with Index IH show ?thesis by auto
  qed
qed

text \<open>The path \<open>b/c\<close>, both keys new, in the sample state: \<open>at\<close> finds the node \<open>insert\<close> made.\<close>

lemma insert_then_at_example:
  "insert_walk sample_state 0 [Key ''b'', Key ''c''] =
     Some (sample_state
             \<lparr>entries := [Object 0, Reference 2, Array 0, Empty, Scalar (Integer 5), Reference 0,
                          Object 1, Empty],
              objects := [EntryObjectDefault (Some 0) [(''a'', 1), (''n'', 4), (''b'', 6)],
                          EntryObjectDefault (Some 6) [(''c'', 7)]]\<rparr>,
           Inr 7) \<and>
   at_walk
     (sample_state
        \<lparr>entries := [Object 0, Reference 2, Array 0, Empty, Scalar (Integer 5), Reference 0,
                     Object 1, Empty],
         objects := [EntryObjectDefault (Some 0) [(''a'', 1), (''n'', 4), (''b'', 6)],
                     EntryObjectDefault (Some 6) [(''c'', 7)]]\<rparr>)
     0 [Key ''b'', Key ''c''] = Inr 7"
proof -
  let ?s1 = "sample_state
        \<lparr>entries := [Object 0, Reference 2, Array 0, Empty, Scalar (Integer 5), Reference 0, Empty],
         objects := [EntryObjectDefault (Some 0) [(''a'', 1), (''n'', 4), (''b'', 6)]]\<rparr>"
  let ?s2 = "sample_state
        \<lparr>entries := [Object 0, Reference 2, Array 0, Empty, Scalar (Integer 5), Reference 0,
                     Object 1, Empty],
         objects := [EntryObjectDefault (Some 0) [(''a'', 1), (''n'', 4), (''b'', 6)],
                     EntryObjectDefault (Some 6) [(''c'', 7)]]\<rparr>"
  have b: "EntryObjectDefault_insert sample_state 0 ''b'' = (?s1, Inr 6)"
    by (simp add: EntryObjectDefault_insert_def sample_object) (simp add: sample_state_def)
  have e6: "entry_at ?s1 6 = Some Empty"
    by (simp add: entry_at_def)
  have ao: "as_object ?s1 6 =
      Some (?s1\<lparr>entries := (entries ?s1)[6 := Object (length (objects ?s1))],
                 objects := objects ?s1 @ [EntryObjectDefault (Some 6) []]\<rparr>, Inr (length (objects ?s1)))"
    by (rule as_object_Empty [OF e6])
  have c: "EntryObjectDefault_insert
      (?s1\<lparr>entries := (entries ?s1)[6 := Object (length (objects ?s1))],
            objects := objects ?s1 @ [EntryObjectDefault (Some 6) []]\<rparr>) 1 ''c'' = (?s2, Inr 7)"
    by (simp add: EntryObjectDefault_insert_def object_at_def)
  have w: "insert_walk sample_state 0 [Key ''b'', Key ''c''] = Some (?s2, Inr 7)"
    using as_object_Object [OF sample_entries(1)] b ao c
    by (simp add: insert_step_def)
  from insert_then_at [OF w] have "at_walk ?s2 0 [Key ''b'', Key ''c''] = Inr 7"
    by simp
  with w show ?thesis by simp
qed

text \<open>
  C3 (the code departs from the claim). In the sample state the child \<open>a\<close> of the root
  is a Reference to an array. \<open>insert\<close> walks the path \<open>a/0\<close> and returns Entry 3, leaving
  the state as it was; \<open>at\<close> on the same path fails with \<open>TypeMismatch\<close>, because
  \<^verbatim>\<open>as_array() const\<close> tests \<^verbatim>\<open>index()\<close> where \<^verbatim>\<open>as_object() const\<close> tests \<^verbatim>\<open>type()\<close>: the
  type of Entry 1 is Array, and an Object behind a Reference (Entry 5) is found.
\<close>

theorem insert_then_at_reference_to_array:
  "EntryObject_insert sample_state 0 [Key ''a'', Index 0] = Some (sample_state, Inr 3) \<and>
   EntryObject_at sample_state 0 [Key ''a'', Index 0] = Inl TypeMismatch \<and>
   type_of sample_state 1 = Inr TArray \<and>
   as_array_const sample_state 1 = Inl TypeMismatch \<and>
   as_object_const sample_state 5 = Inr 0"
proof -
  have s0: "size_t_of_int 0 = 0"
    by (simp add: size_t_of_int_def)
  have i: "insert_walk sample_state 0 [Key ''a'', Index 0] = Some (sample_state, Inr 3)"
    using as_object_Object [OF sample_entries(1)] insert_existing [OF sample_object, of "''a''" 1]
      sample_as_array(2) sample_array
    by (simp add: insert_step_def EntryArrayDefault_at_def vector_at_def s0)
  have t0: "type_of sample_state 0 = Inr TObject" and t1: "type_of sample_state 1 = Inr TArray"
    using sample_entries by (simp_all add: type_of_def fetch_def)
  have c1: "as_array_const sample_state 1 = Inl TypeMismatch"
    using sample_entries by (simp add: as_array_const_def)
  have c5: "as_object_const sample_state 5 = Inr 0"
    using sample_entries by (simp add: as_object_const_def type_of_def fetch_def get_Object_def)
  have c0: "as_object_const sample_state 0 = Inr 0"
    using sample_entries t0 by (simp add: as_object_const_def fetch_def get_Object_def)
  have a: "at_walk sample_state 0 [Key ''a'', Index 0] = Inl TypeMismatch"
    using c0 c1 sample_object by (simp add: at_step_def EntryObjectDefault_at_def)
  from i a t1 c1 c5 show ?thesis
    by (simp add: EntryObject_insert_def EntryObject_at_def sample_object)
qed

subsection \<open>Variant transitions\<close>

text \<open>
  C9 (as stated, refuted). \<open>set_single\<close> on a node that holds a Tensor succeeds and
  leaves a Single; no \<open>clear\<close> comes between.
\<close>

theorem set_single_tensor_counterexample:
  "InMemory_set_single (TensorM (7 :: nat) :: (nat, nat, nat) mem) 3 = (SingleM 3, Inr ())"
  by (simp add: InMemory_set_single_def)

text \<open>
  C9 (amended). A node holds exactly one of its variants. In the older in-memory
  Entry a leaf setter (\<open>set_single\<close>, \<open>set_tensor\<close>, \<open>set_block\<close>) on a node that holds
  Null or any leaf variant replaces it by the variant it sets, with no \<open>clear\<close>; on a
  node that holds an Array or an Object it fails and leaves the node as it is. In
  \<^verbatim>\<open>db/Entry.cpp\<close>, \<open>as_object\<close> and \<open>as_array\<close> (on whatever Entry they are called) leave
  every Entry that is not Empty as it is, and \<open>clear\<close> leaves the Entry Empty.
\<close>

theorem variant_transitions:
  "type_index m \<le> Type_Object \<and>
   (type_index m < Type_Array \<longrightarrow>
      InMemory_set_single m v = (SingleM v, Inr ()) \<and>
      InMemory_set_tensor m t = (TensorM t, Inr ()) \<and>
      InMemory_set_block m b = (BlockM b, Inr ())) \<and>
   (Type_Array \<le> type_index m \<longrightarrow>
      InMemory_set_single m v = (m, Inl SetValueFailed) \<and>
      InMemory_set_tensor m t = (m, Inl SetValueFailed) \<and>
      InMemory_set_block m b = (m, Inl SetValueFailed)) \<and>
   (a < length (entries s) \<longrightarrow> entry_at (clear s a) a = Some Empty) \<and>
   (\<forall>s' r e. as_object s x = Some (s', r) \<longrightarrow> entry_at s a = Some e \<longrightarrow> e \<noteq> Empty \<longrightarrow>
      entry_at s' a = Some e) \<and>
   (\<forall>s' r e. as_array s x = Some (s', r) \<longrightarrow> entry_at s a = Some e \<longrightarrow> e \<noteq> Empty \<longrightarrow>
      entry_at s' a = Some e)"
proof (intro conjI impI allI)
  show "type_index m \<le> Type_Object"
    by (cases m) simp_all
next
  assume "type_index m < Type_Array"
  then show "InMemory_set_single m v = (SingleM v, Inr ())"
    and "InMemory_set_tensor m t = (TensorM t, Inr ())"
    and "InMemory_set_block m b = (BlockM b, Inr ())"
    by (simp_all add: InMemory_set_single_def InMemory_set_tensor_def InMemory_set_block_def)
next
  assume "Type_Array \<le> type_index m"
  then show "InMemory_set_single m v = (m, Inl SetValueFailed)"
    and "InMemory_set_tensor m t = (m, Inl SetValueFailed)"
    and "InMemory_set_block m b = (m, Inl SetValueFailed)"
    by (simp_all add: InMemory_set_single_def InMemory_set_tensor_def InMemory_set_block_def)
next
  assume "a < length (entries s)"
  then show "entry_at (clear s a) a = Some Empty"
    by (simp add: clear_def emplace_def entry_at_def)
next
  fix s' r e
  assume "as_object s x = Some (s', r)" and e: "entry_at s a = Some e" "e \<noteq> Empty"
  then have "entries_kept s s'"
    by (intro as_object_kept(1))
  then show "entry_at s' a = Some e"
    using e by (rule entries_kept_entry_at)
next
  fix s' r e
  assume "as_array s x = Some (s', r)" and e: "entry_at s a = Some e" "e \<noteq> Empty"
  then have "entries_kept s s'"
    by (intro as_array_kept(1))
  then show "entry_at s' a = Some e"
    using e by (rule entries_kept_entry_at)
qed

theorem variant_transitions_witness:
  "InMemory_set_single (TensorM (7 :: nat) :: (nat, nat, nat) mem) 3 = (SingleM 3, Inr ()) \<and>
   InMemory_set_single (ArrayM [] :: (nat, nat, nat) mem) 3 = (ArrayM [], Inl SetValueFailed) \<and>
   entry_at (clear sample_state 4) 4 = Some Empty \<and>
   as_object sample_state 4 = Some (sample_state, Inl TypeMismatch) \<and>
   entry_at sample_state 4 = Some (Scalar (Integer 5)) \<and>
   as_array sample_state 3 =
     Some (sample_state
             \<lparr>entries := [Object 0, Reference 2, Array 0, Array 1, Scalar (Integer 5), Reference 0],
              arrays := [\<lparr>a_self = Some 2, a_container = [3]\<rparr>,
                         \<lparr>a_self = Some 3, a_container = []\<rparr>]\<rparr>,
           Inr 1) \<and>
   entry_at
     (sample_state
        \<lparr>entries := [Object 0, Reference 2, Array 0, Array 1, Scalar (Integer 5), Reference 0],
         arrays := [\<lparr>a_self = Some 2, a_container = [3]\<rparr>,
                    \<lparr>a_self = Some 3, a_container = []\<rparr>]\<rparr>) 4 =
     Some (Scalar (Integer 5))"
proof -
  let ?s' = "sample_state
        \<lparr>entries := [Object 0, Reference 2, Array 0, Array 1, Scalar (Integer 5), Reference 0],
         arrays := [\<lparr>a_self = Some 2, a_container = [3]\<rparr>,
                    \<lparr>a_self = Some 3, a_container = []\<rparr>]\<rparr>"
  have l: "(4 :: nat) < length (entries sample_state)"
    by (simp add: sample_state_def)
  have promote: "as_array sample_state 3 = Some (?s', Inr 1)"
    by (simp add: as_array_Empty [OF sample_entries(4)]) (simp add: sample_state_def)
  have mismatch: "as_object sample_state 4 = Some (sample_state, Inl TypeMismatch)"
    by (rule as_object_other [OF sample_entries(5)]) simp
  have ne: "Scalar (Integer 5) \<noteq> Empty"
    by simp
  note T = variant_transitions [where s = sample_state and a = 4 and v = 3 and t = 0 and b = 0]
  from T [where m = "TensorM 7 :: (nat, nat, nat) mem" and x = 3, THEN conjunct2, THEN conjunct1]
  have 1: "InMemory_set_single (TensorM (7 :: nat) :: (nat, nat, nat) mem) 3 = (SingleM 3, Inr ())"
    by simp
  from T [where m = "ArrayM [] :: (nat, nat, nat) mem" and x = 3,
      THEN conjunct2, THEN conjunct2, THEN conjunct1]
  have 2: "InMemory_set_single (ArrayM [] :: (nat, nat, nat) mem) 3 = (ArrayM [], Inl SetValueFailed)"
    by simp
  from T [where m = "NullM :: (nat, nat, nat) mem" and x = 3,
      THEN conjunct2, THEN conjunct2, THEN conjunct2, THEN conjunct1] l
  have 3: "entry_at (clear sample_state 4) 4 = Some Empty"
    by simp
  from T [where m = "NullM :: (nat, nat, nat) mem" and x = 3,
      THEN conjunct2, THEN conjunct2, THEN conjunct2, THEN conjunct2, THEN conjunct2,
      rule_format, OF promote sample_entries(5) ne]
  have 4: "entry_at ?s' 4 = Some (Scalar (Integer 5))" .
  from 1 2 3 4 promote mismatch sample_entries(5) show ?thesis by simp
qed

subsection \<open>Chains and cycles of references\<close>

text \<open>
  \<open>update\<close> and \<open>as_object\<close> call themselves on the target of a Reference without a
  bound: on the cycle A \<rightarrow> B \<rightarrow> A they never return. Through a Reference whose target
  is a Reference again, \<open>as_object\<close> forwards the call and then fails, because the
  container is looked for one hop away only.
\<close>

lemma cyclic_entries:
  "entry_at cyclic_state 0 = Some (Reference 1)"
  "entry_at cyclic_state 1 = Some (Reference 0)"
  by (simp_all add: cyclic_state_def entry_at_def)

lemma update_cycle_never_returns:
  assumes "update s a = Some y"
  shows "\<not> (s = cyclic_state \<and> a < 2)"
proof (rule update.raw_induct [where P = "\<lambda>s a y. \<not> (s = cyclic_state \<and> a < 2)", OF _ assms])
  fix f :: "state \<Rightarrow> addr \<Rightarrow> (error + unit) option" and s a y
  assume IH: "\<And>s a y. f s a = Some y \<Longrightarrow> \<not> (s = cyclic_state \<and> a < 2)"
  assume body: "(case entry_at s a of
        None \<Rightarrow> Some (Inl Undefined)
      | Some (Reference b) \<Rightarrow> f s b
      | Some _ \<Rightarrow> Some (Inr ())) = Some y"
  show "\<not> (s = cyclic_state \<and> a < 2)"
  proof
    assume c: "s = cyclic_state \<and> a < 2"
    then consider "a = 0" | "a = 1" by fastforce
    then show False
    proof cases
      case 1
      with c body cyclic_entries(1) have "f cyclic_state 1 = Some y" by simp
      from IH [OF this] show False by simp
    next
      case 2
      with c body cyclic_entries(2) have "f cyclic_state 0 = Some y" by simp
      from IH [OF this] show False by simp
    qed
  qed
qed

lemma update_cycle: "update cyclic_state 0 = None"
  using update_cycle_never_returns [of cyclic_state 0] by (cases "update cyclic_state 0") auto

lemma as_object_cycle_never_returns:
  assumes "as_object s a = Some y"
  shows "\<not> (s = cyclic_state \<and> a < 2)"
proof (rule as_object.raw_induct [where P = "\<lambda>s a y. \<not> (s = cyclic_state \<and> a < 2)", OF _ assms])
  fix f :: "state \<Rightarrow> addr \<Rightarrow> (state \<times> (error + addr)) option" and s a y
  assume IH: "\<And>s a y. f s a = Some y \<Longrightarrow> \<not> (s = cyclic_state \<and> a < 2)"
  assume body: "(case entry_at s a of
        None \<Rightarrow> Some (s, Inl Undefined)
      | Some Empty \<Rightarrow>
          (case EntryObject_create s (Some a) [] of
             (s1, Inl e) \<Rightarrow> Some (s1, Inl e)
           | (s1, Inr ob) \<Rightarrow>
               (let s2 = emplace s1 a (Object ob) in Some (s2, get_Object s2 (fetch s2 a))))
      | Some (Reference b) \<Rightarrow>
          Option.bind (f s b) (\<lambda>(s1, r).
            case r of
              Inl e \<Rightarrow> Some (s1, Inl e)
            | Inr _ \<Rightarrow> Some (s1, get_Object s1 (fetch s1 a)))
      | Some (Object _) \<Rightarrow> Some (s, get_Object s (fetch s a))
      | Some _ \<Rightarrow> Some (s, Inl TypeMismatch)) = Some y"
  show "\<not> (s = cyclic_state \<and> a < 2)"
  proof
    assume c: "s = cyclic_state \<and> a < 2"
    then consider "a = 0" | "a = 1" by fastforce
    then show False
    proof cases
      case 1
      with c body cyclic_entries(1) obtain z where "f cyclic_state 1 = Some z"
        by (auto split: Option.bind_splits)
      from IH [OF this] show False by simp
    next
      case 2
      with c body cyclic_entries(2) obtain z where "f cyclic_state 0 = Some z"
        by (auto split: Option.bind_splits)
      from IH [OF this] show False by simp
    qed
  qed
qed

lemma as_object_cycle: "as_object cyclic_state 0 = None"
  using as_object_cycle_never_returns [of cyclic_state 0]
  by (cases "as_object cyclic_state 0") auto

lemma as_object_Reference_chain:
  assumes a: "entry_at s a = Some (Reference b)"
    and b: "entry_at s b = Some (Reference c)"
    and r: "as_object s b = Some (s1, Inr ob)"
  shows "as_object s a = Some (s1, Inl BadVariantAccess)"
proof -
  from as_object_kept(1) [OF r] have k: "entries_kept s s1" .
  from entries_kept_entry_at [OF k a] entries_kept_entry_at [OF k b]
  have "entry_at s1 a = Some (Reference b)" "entry_at s1 b = Some (Reference c)"
    by simp_all
  then have "get_Object s1 (fetch s1 a) = Inl BadVariantAccess"
    by (simp add: get_Object_def fetch_def)
  with r show ?thesis
    by (simp add: as_object_Reference [OF a])
qed

lemma chain_entries:
  "entry_at chain_state 0 = Some (Reference 1)"
  "entry_at chain_state 1 = Some (Reference 2)"
  "entry_at chain_state 2 = Some (Object 0)"
  by (simp_all add: chain_state_def entry_at_def)

text \<open>
  C2 (the code departs from the claim). Entry 0 is a Reference to Entry 1, which is a
  Reference to Entry 2, an Object. \<open>as_object\<close> on Entry 2 and on Entry 1 returns the
  object; on Entry 0 the call is forwarded to Entry 1 and succeeds there, and then
  \<^verbatim>\<open>*std::get<Object>(fetch())\<close> looks one hop away, finds the Reference in Entry 1, and
  throws \<^verbatim>\<open>std::bad_variant_access\<close>: the result of the forwarded call is lost.
\<close>

theorem as_object_reference_chain_fails:
  "entry_at chain_state 0 = Some (Reference 1) \<and>
   entry_at chain_state 1 = Some (Reference 2) \<and>
   entry_at chain_state 2 = Some (Object 0) \<and>
   as_object chain_state 2 = Some (chain_state, Inr 0) \<and>
   as_object chain_state 1 = Some (chain_state, Inr 0) \<and>
   as_object chain_state 0 = Some (chain_state, Inl BadVariantAccess)"
proof -
  have 2: "as_object chain_state 2 = Some (chain_state, Inr 0)"
    by (rule as_object_Object [OF chain_entries(3)])
  have "as_object chain_state 1 = as_object chain_state 2"
    using chain_entries(3) by (intro as_object_Reference_direct [OF chain_entries(2)]) simp
  with 2 have 1: "as_object chain_state 1 = Some (chain_state, Inr 0)"
    by simp
  have 0: "as_object chain_state 0 = Some (chain_state, Inl BadVariantAccess)"
    by (rule as_object_Reference_chain [OF chain_entries(1) chain_entries(2) 1])
  from chain_entries 2 1 0 show ?thesis by simp
qed

end
